theory Spec2Isabelle
  imports Complex_Main
begin

section \<open>Tables\<close>

text \<open>
  The program of \<^verbatim>\<open>AIS_Analysis/Section1_Yiannis_Modularized.py\<close> works on
  pandas data frames. A frame is modelled by its column labels and its rows, every row
  holding one cell per column, in column order. A cell is a number, a string, a boolean,
  the missing value (pandas' \<^verbatim>\<open>NaN\<close>) or a point geometry. Numbers are real
  numbers; the rounding of the 64-bit floats of the program is the parameter \<open>fl\<close> of the
  arithmetic, introduced with the distance below.
\<close>

datatype val = Num real | Str string | Bool bool | NaN | Geom real real

datatype error = KeyError | ValueError | IndexError | TypeError

record frame =
  cols :: "string list"
  rows :: "val list list"

text \<open>
  A frame is well formed when its column labels are pairwise different and every row has
  one cell per column.
\<close>

definition wf_frame :: "frame \<Rightarrow> bool" where
  "wf_frame df = (distinct (cols df) \<and> list_all (\<lambda>r. length r = length (cols df)) (rows df))"

text \<open>Sequencing of computations that may raise: the first error ends the computation.\<close>

definition bind_e :: "error + 'a \<Rightarrow> ('a \<Rightarrow> error + 'b) \<Rightarrow> error + 'b" where
  "bind_e m f = (case m of Inl e \<Rightarrow> Inl e | Inr x \<Rightarrow> f x)"

fun traverse_e :: "('a \<Rightarrow> error + 'b) \<Rightarrow> 'a list \<Rightarrow> error + 'b list" where
  "traverse_e f [] = Inr []"
| "traverse_e f (x # xs) = bind_e (f x) (\<lambda>y. bind_e (traverse_e f xs) (\<lambda>ys. Inr (y # ys)))"

text \<open>\<^verbatim>\<open>xs[i]\<close> on an array: \<^verbatim>\<open>IndexError\<close> past the end.\<close>

definition nth_e :: "'a list \<Rightarrow> nat \<Rightarrow> error + 'a" where
  "nth_e xs i = (if i < length xs then Inr (xs ! i) else Inl IndexError)"

text \<open>The position of a label in a list of column labels (the length, when absent).\<close>

fun col_pos :: "string list \<Rightarrow> string \<Rightarrow> nat" where
  "col_pos [] c = 0"
| "col_pos (x # xs) c = (if x = c then 0 else Suc (col_pos xs c))"

text \<open>The cell of row \<open>r\<close> under the label \<open>c\<close>, for the column labels \<open>cs\<close>.\<close>

definition lookup :: "string list \<Rightarrow> val list \<Rightarrow> string \<Rightarrow> val" where
  "lookup cs r c = r ! col_pos cs c"

text \<open>\<^verbatim>\<open>df[c]\<close>: the cells of column \<open>c\<close>, or \<^verbatim>\<open>KeyError\<close>.\<close>

definition getitem :: "frame \<Rightarrow> string \<Rightarrow> error + val list" where
  "getitem df c =
     (if c \<in> set (cols df) then Inr (map (\<lambda>r. lookup (cols df) r c) (rows df))
      else Inl KeyError)"

text \<open>
  \<^verbatim>\<open>df[c] = vs\<close>: an existing column is overwritten where it stands, a new one
  is appended as the last column; values whose number differs from the number of rows
  raise \<^verbatim>\<open>ValueError\<close>.
\<close>

definition set_col :: "string list \<Rightarrow> string \<Rightarrow> string list" where
  "set_col cs c = (if c \<in> set cs then cs else cs @ [c])"

definition set_cell :: "string list \<Rightarrow> string \<Rightarrow> val \<Rightarrow> val list \<Rightarrow> val list" where
  "set_cell cs c v r = (if c \<in> set cs then r[col_pos cs c := v] else r @ [v])"

definition setitem :: "frame \<Rightarrow> string \<Rightarrow> val list \<Rightarrow> error + frame" where
  "setitem df c vs =
     (if length vs \<noteq> length (rows df) then Inl ValueError
      else Inr \<lparr>cols = set_col (cols df) c,
                rows = map2 (\<lambda>r v. set_cell (cols df) c v r) (rows df) vs\<rparr>)"

text \<open>
  \<^verbatim>\<open>df.loc[mask, [c1, ...]] = [v1, ...]\<close>: in the rows selected by the boolean
  mask, the cell of column \<open>ci\<close> becomes \<open>vi\<close>.
\<close>

fun loc_setitem :: "frame \<Rightarrow> bool list \<Rightarrow> (string \<times> val) list \<Rightarrow> error + frame" where
  "loc_setitem df sel [] = Inr df"
| "loc_setitem df sel ((c, v) # cvs) =
     bind_e (getitem df c) (\<lambda>old.
     bind_e (setitem df c (map2 (\<lambda>m x. if m then v else x) sel old)) (\<lambda>df'.
     loc_setitem df' sel cvs))"

text \<open>\<^verbatim>\<open>series == v\<close> and \<^verbatim>\<open>mask1 & mask2\<close>, element by element.\<close>

definition eq_mask :: "val list \<Rightarrow> val \<Rightarrow> bool list" where
  "eq_mask vs v = map (\<lambda>x. x = v) vs"

definition and_mask :: "bool list \<Rightarrow> bool list \<Rightarrow> bool list" where
  "and_mask ms ns = map2 (\<and>) ms ns"

text \<open>
  \<^verbatim>\<open>df.drop(columns=cs)\<close>: \<^verbatim>\<open>KeyError\<close> when a label is absent, else the
  frame without these columns.
\<close>

definition drop_cells :: "string list \<Rightarrow> string list \<Rightarrow> 'a list \<Rightarrow> 'a list" where
  "drop_cells cs ds r = map snd (filter (\<lambda>(c, x). c \<notin> set ds) (zip cs r))"

definition drop_columns :: "frame \<Rightarrow> string list \<Rightarrow> error + frame" where
  "drop_columns df ds =
     (if set ds \<subseteq> set (cols df)
      then Inr \<lparr>cols = filter (\<lambda>c. c \<notin> set ds) (cols df),
                rows = map (drop_cells (cols df) ds) (rows df)\<rparr>
      else Inl KeyError)"

text \<open>\<^verbatim>\<open>df.iloc[i:j]\<close> for \<open>0 \<le> i \<le> j\<close>: the rows at positions \<open>i\<close> to \<open>j - 1\<close>.\<close>

definition iloc :: "frame \<Rightarrow> nat \<Rightarrow> nat \<Rightarrow> frame" where
  "iloc df i j = df\<lparr>rows := take (j - i) (drop i (rows df))\<rparr>"

text \<open>
  \<^verbatim>\<open>pd.concat(frames, ignore_index=True)\<close>: \<^verbatim>\<open>ValueError\<close> on no frame; else
  the rows of the frames, one frame after the other. The frames the program concatenates
  come out of the same function and carry the same column labels, those of the first.
\<close>

definition pd_concat :: "frame list \<Rightarrow> error + frame" where
  "pd_concat fs =
     (case fs of [] \<Rightarrow> Inl ValueError
      | f # gs \<Rightarrow> Inr \<lparr>cols = cols f, rows = concat (map rows fs)\<rparr>)"

text \<open>
  The objects of the program live in a store, at addresses; a variable of the program
  holds an address. An assignment to a column changes the object at the address.
\<close>

type_synonym store = "nat \<Rightarrow> frame"

definition store_setitem :: "store \<Rightarrow> nat \<Rightarrow> string \<Rightarrow> val list \<Rightarrow> error + store" where
  "store_setitem s a c vs = bind_e (setitem (s a) c vs) (\<lambda>df. Inr (s(a := df)))"

definition store_loc_setitem ::
  "store \<Rightarrow> nat \<Rightarrow> bool list \<Rightarrow> (string \<times> val) list \<Rightarrow> error + store" where
  "store_loc_setitem s a sel cvs = bind_e (loc_setitem (s a) sel cvs) (\<lambda>df. Inr (s(a := df)))"

section \<open>Ingestion and cleaning\<close>

text \<open>
  \<^verbatim>\<open>DataFrame.drop_duplicates()\<close>: a row is kept when no earlier row has the same
  cells in all columns (the first occurrence stays, missing values compare equal).
  \<open>seen\<close> holds the rows met so far.
\<close>

fun keep_first :: "'a list \<Rightarrow> 'a list \<Rightarrow> 'a list" where
  "keep_first seen [] = []"
| "keep_first seen (r # rs) =
     (if r \<in> set seen then keep_first seen rs else r # keep_first (r # seen) rs)"

definition drop_duplicates :: "frame \<Rightarrow> frame" where
  "drop_duplicates df = df\<lparr>rows := keep_first [] (rows df)\<rparr>"

text \<open>
  \<^verbatim>\<open>load_and_clean_data\<close>. The loader \<^verbatim>\<open>load_raw_data\<close> of
  \<^verbatim>\<open>helper_utils\<close> and the three filters of \<^verbatim>\<open>data_cleaning\<close> are
  not part of the file under study: they are parameters, each of which may raise.
\<close>

definition load_and_clean_data ::
  "(string \<Rightarrow> error + frame) \<Rightarrow> (frame \<Rightarrow> error + frame) \<Rightarrow> (frame \<Rightarrow> error + frame) \<Rightarrow>
   (frame \<Rightarrow> error + frame) \<Rightarrow> string \<Rightarrow> error + frame" where
  "load_and_clean_data load_raw_data remove_NA remove_invalid_lat_and_lon remove_invalid_speed
     parquet_file_path =
     bind_e (load_raw_data parquet_file_path) (\<lambda>ais_raw_data.
     bind_e (remove_NA ais_raw_data) (\<lambda>ais_raw_data.
     bind_e (remove_invalid_lat_and_lon ais_raw_data) (\<lambda>ais_raw_data.
     bind_e (remove_invalid_speed ais_raw_data) (\<lambda>ais_raw_data.
     Inr (drop_duplicates ais_raw_data)))))"

section \<open>Nearest-port annotator\<close>

text \<open>
  \<^verbatim>\<open>df[[a, b]].to_numpy()\<close>: the pairs of the cells of two columns, row by row.
\<close>

definition coords :: "frame \<Rightarrow> string \<Rightarrow> string \<Rightarrow> error + (val \<times> val) list" where
  "coords df a b =
     bind_e (getitem df a) (\<lambda>xs.
     bind_e (getitem df b) (\<lambda>ys.
     Inr (zip xs ys)))"

text \<open>
  The arithmetic of the program is that of 64-bit floating-point numbers. Every float is a
  real number; \<open>fl\<close> stands for the rounding of a real number to the nearest float, which
  the machine applies to the result of every operation. It is a parameter of the model;
  what the proofs use of it is that it is monotone and that \<open>fl 0 = 0\<close>. With the
  identity for \<open>fl\<close> the arithmetic is exact.

  The Euclidean distance of two points, as the library computes it: differences, squares,
  their sum, the square root.
\<close>

definition euclid :: "(real \<Rightarrow> real) \<Rightarrow> real \<times> real \<Rightarrow> real \<times> real \<Rightarrow> real" where
  "euclid fl a b =
     fl (sqrt (fl (fl ((fl (fst a - fst b))\<^sup>2) + fl ((fl (snd a - snd b))\<^sup>2))))"

fun point_of :: "val \<times> val \<Rightarrow> error + real \<times> real" where
  "point_of (Num x, Num y) = Inr (x, y)"
| "point_of _ = Inl ValueError"

text \<open>
  The spatial index is the library's \<^verbatim>\<open>scipy.spatial.cKDTree\<close>; its code is not
  part of the program. The model follows what the library documents. Building the index
  rejects coordinates that are not finite numbers with \<^verbatim>\<open>ValueError\<close> and
  arranges the positions of the points in a k-d tree: a set of at most 16 positions (the
  default \<^verbatim>\<open>leafsize\<close>) is a leaf; a larger one is split on the coordinate of largest
  spread, at the midpoint of its least and greatest value, into the positions whose
  coordinate is below the split and the others. Where a split leaves one side empty the
  library slides it to the nearest point; the model makes the node a leaf, which changes
  the shape of the tree and not the answers to a query.
\<close>

datatype kdtree = Leaf "nat list" | Node bool real kdtree kdtree

definition coord :: "bool \<Rightarrow> real \<times> real \<Rightarrow> real" where
  "coord ax p = (if ax then snd p else fst p)"

definition spread :: "(real \<Rightarrow> real) \<Rightarrow> real list \<Rightarrow> real" where
  "spread fl cs = fl (Max (set cs) - Min (set cs))"

function build :: "(real \<Rightarrow> real) \<Rightarrow> (real \<times> real) list \<Rightarrow> nat list \<Rightarrow> kdtree" where
  "build fl data idx =
     (if length idx \<le> 16 then Leaf idx
      else
        let ax = (spread fl (map (\<lambda>i. fst (data ! i)) idx)
                    < spread fl (map (\<lambda>i. snd (data ! i)) idx));
            cs = map (\<lambda>i. coord ax (data ! i)) idx;
            split = fl (fl (Max (set cs) + Min (set cs)) / 2);
            l = filter (\<lambda>i. coord ax (data ! i) < split) idx;
            r = filter (\<lambda>i. \<not> coord ax (data ! i) < split) idx
        in if l = [] \<or> r = [] then Leaf idx
           else Node ax split (build fl data l) (build fl data r))"
  by pat_completeness auto
termination
proof -
  have less1: "length (filter P xs) < length xs" if "filter (\<lambda>x. \<not> P x) xs \<noteq> []"
    for P and xs :: "nat list"
    using sum_length_filter_compl [of P xs] that by (cases "filter (\<lambda>x. \<not> P x) xs") auto
  have less2: "length (filter (\<lambda>x. \<not> P x) xs) < length xs" if "filter P xs \<noteq> []"
    for P and xs :: "nat list"
    using sum_length_filter_compl [of P xs] that by (cases "filter P xs") auto
  show ?thesis
    by (relation "measure (\<lambda>(fl, data, idx). length idx)") (simp_all add: less1 less2)
qed

declare build.simps [simp del]

definition cKDTree ::
  "(real \<Rightarrow> real) \<Rightarrow> (val \<times> val) list \<Rightarrow> error + (real \<times> real) list \<times> kdtree" where
  "cKDTree fl data =
     bind_e (traverse_e point_of data) (\<lambda>pts. Inr (pts, build fl pts [0..<length pts]))"

text \<open>
  \<^verbatim>\<open>query(x, k=1)\<close> answers, for each point, the distance to a nearest point of the
  index and the position of that point. The search keeps the best candidate found so far
  (none at the start). A leaf is scanned, and a candidate is replaced by a strictly closer
  point. At an inner node the side of the query point is searched first; the other side is
  searched only if the distance from the query point to the splitting line is less than
  the best distance found. For an index of no point the library answers an infinite
  distance and position 0, on which line 50 (\<^verbatim>\<open>port_names[i]\<close>) raises
  \<^verbatim>\<open>IndexError\<close>; the model raises it in the query. A query point that is not a pair
  of finite numbers is rejected with \<^verbatim>\<open>ValueError\<close>.
\<close>

fun closer :: "real \<times> nat \<Rightarrow> (real \<times> nat) option \<Rightarrow> (real \<times> nat) option" where
  "closer c None = Some c"
| "closer c (Some b) = (if fst c < fst b then Some c else Some b)"

fun scan ::
  "(real \<Rightarrow> real) \<Rightarrow> (real \<times> real) list \<Rightarrow> real \<times> real \<Rightarrow> nat list \<Rightarrow> (real \<times> nat) option \<Rightarrow>
   (real \<times> nat) option" where
  "scan fl data x [] best = best"
| "scan fl data x (i # idx) best = scan fl data x idx (closer (euclid fl x (data ! i), i) best)"

definition plane_point :: "bool \<Rightarrow> real \<Rightarrow> real \<times> real \<Rightarrow> real \<times> real" where
  "plane_point ax split x = (if ax then (fst x, split) else (split, snd x))"

fun may_improve :: "real \<Rightarrow> (real \<times> nat) option \<Rightarrow> bool" where
  "may_improve bound None = True"
| "may_improve bound (Some b) = (bound < fst b)"

fun nearest ::
  "(real \<Rightarrow> real) \<Rightarrow> (real \<times> real) list \<Rightarrow> real \<times> real \<Rightarrow> kdtree \<Rightarrow> (real \<times> nat) option \<Rightarrow>
   (real \<times> nat) option" where
  "nearest fl data x (Leaf idx) best = scan fl data x idx best"
| "nearest fl data x (Node ax split l r) best =
     (if coord ax x < split
      then (let best1 = nearest fl data x l best
            in if may_improve (euclid fl x (plane_point ax split x)) best1
               then nearest fl data x r best1 else best1)
      else (let best1 = nearest fl data x r best
            in if may_improve (euclid fl x (plane_point ax split x)) best1
               then nearest fl data x l best1 else best1))"

definition query1 ::
  "(real \<Rightarrow> real) \<Rightarrow> (real \<times> real) list \<times> kdtree \<Rightarrow> real \<times> real \<Rightarrow> error + real \<times> nat" where
  "query1 fl tree x =
     (case nearest fl (fst tree) x (snd tree) None of
        None \<Rightarrow> Inl IndexError | Some b \<Rightarrow> Inr b)"

definition query ::
  "(real \<Rightarrow> real) \<Rightarrow> (real \<times> real) list \<times> kdtree \<Rightarrow> (val \<times> val) list \<Rightarrow>
   error + (real \<times> nat) list" where
  "query fl tree xs = bind_e (traverse_e point_of xs) (\<lambda>ps. traverse_e (query1 fl tree) ps)"

text \<open>
  \<^verbatim>\<open>np.where(series <= dist, "Yes", "No")\<close>: a comparison with a missing value
  is false.
\<close>

fun le_val :: "val \<Rightarrow> real \<Rightarrow> bool" where
  "le_val (Num d) x = (d \<le> x)"
| "le_val _ x = False"

definition yes_no :: "bool \<Rightarrow> val" where
  "yes_no b = (if b then Str ''Yes'' else Str ''No'')"

text \<open>The loop of lines 55 and 56 over the thresholds and their labels.\<close>

fun threshold_loop :: "store \<Rightarrow> nat \<Rightarrow> (real \<times> string) list \<Rightarrow> error + store" where
  "threshold_loop s a [] = Inr s"
| "threshold_loop s a ((dst, label) # rest) =
     bind_e (getitem (s a) ''Distance to Nearest Port'') (\<lambda>ds.
     bind_e (store_setitem s a (''Less than '' @ label @ '' from port'')
               (map (\<lambda>d. yes_no (le_val d dst)) ds)) (\<lambda>s'.
     threshold_loop s' a rest))"

text \<open>
  \<^verbatim>\<open>create_proximity_columns\<close>. The arguments are the addresses of the two
  frames; every assignment acts on the object at \<open>ais_raw_data\<close>, and the address
  itself is returned.
\<close>

definition create_proximity_columns ::
  "(real \<Rightarrow> real) \<Rightarrow> store \<Rightarrow> nat \<Rightarrow> nat \<Rightarrow> error + store \<times> nat" where
  "create_proximity_columns fl s ais_raw_data port_info =
     bind_e (coords (s ais_raw_data) ''latitude'' ''longitude'') (\<lambda>vessel_coords.
     bind_e (coords (s port_info) ''Latitude'' ''Longitude'') (\<lambda>port_coords.
     bind_e (getitem (s port_info) ''Main Port Name'') (\<lambda>port_names.
     bind_e (cKDTree fl port_coords) (\<lambda>port_tree.
     bind_e (query fl port_tree vessel_coords) (\<lambda>nearest.
     let distances = map fst nearest; indices = map snd nearest in
     bind_e (store_setitem s ais_raw_data ''Distance to Nearest Port'' (map Num distances)) (\<lambda>s.
     bind_e (traverse_e (nth_e port_names) indices) (\<lambda>names.
     bind_e (store_setitem s ais_raw_data ''Proximity Port Name'' names) (\<lambda>s.
     bind_e (traverse_e (nth_e port_coords) indices) (\<lambda>pcs.
     bind_e (store_setitem s ais_raw_data ''Port Latitude'' (map fst pcs)) (\<lambda>s.
     bind_e (store_setitem s ais_raw_data ''Port Longitude'' (map snd pcs)) (\<lambda>s.
     bind_e (threshold_loop s ais_raw_data
               [(1, ''1 km''), (3, ''3 km''), (5, ''5 km''), (10, ''10 km'')]) (\<lambda>s.
     bind_e (getitem (s ais_raw_data) ''Less than 1 km from port'') (\<lambda>f1.
     bind_e (getitem (s ais_raw_data) ''Less than 3 km from port'') (\<lambda>f3.
     bind_e (getitem (s ais_raw_data) ''Less than 5 km from port'') (\<lambda>f5.
     bind_e (getitem (s ais_raw_data) ''Less than 10 km from port'') (\<lambda>f10.
     bind_e (store_loc_setitem s ais_raw_data
               (and_mask (and_mask (and_mask (eq_mask f1 (Str ''No'')) (eq_mask f3 (Str ''No'')))
                  (eq_mask f5 (Str ''No''))) (eq_mask f10 (Str ''No'')))
               [(''Proximity Port Name'', Str ''No''), (''Port Latitude'', NaN),
                (''Port Longitude'', NaN)]) (\<lambda>s.
     Inr (s, ais_raw_data))))))))))))))))))"

section \<open>Polygon containment annotator\<close>

text \<open>
  The polygon reference table has a geometry column \<^verbatim>\<open>polygon\<close> and a column
  \<^verbatim>\<open>port_name\<close>. The functions of the join are written for any type of
  geometries and any predicate \<open>is_within\<close> (point, then geometry), as the library's
  \<^verbatim>\<open>sjoin\<close> takes its predicate as an argument; the program runs them on the
  polygons and with the predicate \<open>within_polygon\<close> given below. The reprojection
  \<^verbatim>\<open>to_crs\<close> belongs to the library and is a parameter.
\<close>

record 'g port_polygon =
  polygon :: 'g
  port_name :: val

text \<open>
  The geometries of the program's data are polygons: a shell and holes, each a ring of
  vertices (longitude, latitude). The predicate that line 80 names,
  \<^verbatim>\<open>predicate='within'\<close>, is shapely's: a point is within a polygon when it lies in
  the interior of the polygon; a point on the boundary, that is on the shell or on the
  ring of a hole, is not within it. The interior of a ring is given by the parity of the
  edges that a ray from the point crosses.
\<close>

datatype shape = Polygon (shell: "(real \<times> real) list") (holes: "(real \<times> real) list list")

definition ring_edges :: "(real \<times> real) list \<Rightarrow> ((real \<times> real) \<times> (real \<times> real)) list" where
  "ring_edges vs = (case vs of [] \<Rightarrow> [] | v # ws \<Rightarrow> zip vs (ws @ [v]))"

definition on_segment :: "real \<times> real \<Rightarrow> (real \<times> real) \<times> (real \<times> real) \<Rightarrow> bool" where
  "on_segment p e =
     (case e of (a, b) \<Rightarrow>
        (fst b - fst a) * (snd p - snd a) = (snd b - snd a) * (fst p - fst a) \<and>
        min (fst a) (fst b) \<le> fst p \<and> fst p \<le> max (fst a) (fst b) \<and>
        min (snd a) (snd b) \<le> snd p \<and> snd p \<le> max (snd a) (snd b))"

definition crosses :: "real \<times> real \<Rightarrow> (real \<times> real) \<times> (real \<times> real) \<Rightarrow> bool" where
  "crosses p e =
     (case e of (a, b) \<Rightarrow>
        (snd p < snd a) \<noteq> (snd p < snd b) \<and>
        fst p < fst a + (snd p - snd a) * (fst b - fst a) / (snd b - snd a))"

definition on_ring :: "real \<times> real \<Rightarrow> (real \<times> real) list \<Rightarrow> bool" where
  "on_ring p vs = list_ex (on_segment p) (ring_edges vs)"

definition inside_ring :: "real \<times> real \<Rightarrow> (real \<times> real) list \<Rightarrow> bool" where
  "inside_ring p vs = odd (length (filter (crosses p) (ring_edges vs)))"

definition on_boundary :: "real \<times> real \<Rightarrow> shape \<Rightarrow> bool" where
  "on_boundary p g = (on_ring p (shell g) \<or> list_ex (on_ring p) (holes g))"

definition within_polygon :: "real \<times> real \<Rightarrow> shape \<Rightarrow> bool" where
  "within_polygon p g =
     (inside_ring p (shell g) \<and> \<not> on_ring p (shell g) \<and>
      list_all (\<lambda>h. \<not> inside_ring p h \<and> \<not> on_ring p h) (holes g))"

text \<open>
  \<^verbatim>\<open>gpd.points_from_xy(xs, ys)\<close>: a point per pair of numbers; a missing
  coordinate gives a missing geometry, which lies within nothing.
\<close>

fun xy_point :: "val \<times> val \<Rightarrow> error + val" where
  "xy_point (Num x, Num y) = Inr (Geom x y)"
| "xy_point (NaN, Num y) = Inr NaN"
| "xy_point (Num x, NaN) = Inr NaN"
| "xy_point (NaN, NaN) = Inr NaN"
| "xy_point _ = Inl TypeError"

definition points_from_xy :: "val list \<Rightarrow> val list \<Rightarrow> error + val list" where
  "points_from_xy xs ys = traverse_e xy_point (zip xs ys)"

text \<open>
  \<^verbatim>\<open>gpd.sjoin(vessels_gdf, polygons, how='left', predicate='within')\<close>. Every row
  of the left frame gives one row per polygon its geometry is within, in the order of the
  polygons, with the position of the polygon under \<^verbatim>\<open>index_right\<close> and the
  polygon's other column; a row within no polygon gives one row with missing values there.
  The join refuses a frame with a column \<^verbatim>\<open>index_left\<close> or
  \<^verbatim>\<open>index_right\<close>, and renames a label that both sides carry with the suffixes
  \<^verbatim>\<open>_left\<close> and \<^verbatim>\<open>_right\<close>.
\<close>

definition matches :: "(real \<times> real \<Rightarrow> 'g \<Rightarrow> bool) \<Rightarrow> 'g port_polygon list \<Rightarrow> val \<Rightarrow> nat list" where
  "matches is_within polygons g =
     (case g of
        Geom x y \<Rightarrow> filter (\<lambda>j. is_within (x, y) (polygon (polygons ! j))) [0..<length polygons]
      | _ \<Rightarrow> [])"

definition join_row ::
  "(real \<times> real \<Rightarrow> 'g \<Rightarrow> bool) \<Rightarrow> 'g port_polygon list \<Rightarrow> string list \<Rightarrow> val list \<Rightarrow> val list list" where
  "join_row is_within polygons cs r =
     (case matches is_within polygons (lookup cs r ''geometry'') of
        [] \<Rightarrow> [r @ [NaN, NaN]]
      | j # js \<Rightarrow> map (\<lambda>j. r @ [Num (real j), port_name (polygons ! j)]) (j # js))"

definition sjoin ::
  "(real \<times> real \<Rightarrow> 'g \<Rightarrow> bool) \<Rightarrow> frame \<Rightarrow> 'g port_polygon list \<Rightarrow> error + frame" where
  "sjoin is_within vessels_gdf polygons =
     (if ''index_left'' \<in> set (cols vessels_gdf) \<or> ''index_right'' \<in> set (cols vessels_gdf)
      then Inl ValueError
      else Inr \<lparr>cols = map (\<lambda>c. if c = ''port_name'' then ''port_name_left'' else c)
                         (cols vessels_gdf) @
                       [''index_right'',
                        if ''port_name'' \<in> set (cols vessels_gdf) then ''port_name_right''
                        else ''port_name''],
                rows = concat (map (join_row is_within polygons (cols vessels_gdf))
                         (rows vessels_gdf))\<rparr>)"

text \<open>\<^verbatim>\<open>series.notnull()\<close> and \<^verbatim>\<open>series.where(cond, other)\<close>.\<close>

definition notnull :: "val \<Rightarrow> val" where
  "notnull v = Bool (v \<noteq> NaN)"

definition where_val :: "val \<Rightarrow> val \<Rightarrow> val \<Rightarrow> val" where
  "where_val other v cond = (if cond = Bool True then v else other)"

text \<open>\<^verbatim>\<open>process_chunk\<close>, the inner function of \<^verbatim>\<open>process_with_polygons\<close>.\<close>

definition process_chunk ::
  "(real \<times> real \<Rightarrow> 'g \<Rightarrow> bool) \<Rightarrow> 'g port_polygon list \<Rightarrow> frame \<Rightarrow> error + frame" where
  "process_chunk is_within polygons chunk =
     bind_e (getitem chunk ''longitude'') (\<lambda>xs.
     bind_e (getitem chunk ''latitude'') (\<lambda>ys.
     bind_e (points_from_xy xs ys) (\<lambda>points.
     bind_e (setitem chunk ''geometry'' points) (\<lambda>vessels_gdf.
     bind_e (sjoin is_within vessels_gdf polygons) (\<lambda>joined.
     bind_e (getitem joined ''index_right'') (\<lambda>index_right.
     bind_e (setitem joined ''Parked in Port'' (map notnull index_right)) (\<lambda>joined.
     bind_e (getitem joined ''port_name'') (\<lambda>names.
     bind_e (getitem joined ''Parked in Port'') (\<lambda>parked.
     bind_e (setitem joined ''Port Name'' (map2 (where_val (Str ''No'')) names parked)) (\<lambda>joined.
     drop_columns joined [''geometry'', ''index_right'']))))))))))"

text \<open>
  \<^verbatim>\<open>range(start, stop, step)\<close> for a step other than 0 (a step of 0 raises
  \<^verbatim>\<open>ValueError\<close>, see below).
\<close>

function range_py :: "int \<Rightarrow> int \<Rightarrow> int \<Rightarrow> int list" where
  "range_py i n k =
     (if 0 < k \<and> i < n \<or> k < 0 \<and> n < i then i # range_py (i + k) n k else [])"
  by pat_completeness auto
termination
  by (relation "measure (\<lambda>(i, n, k). nat (if 0 < k then n - i else i - n))") auto

declare range_py.simps [simp del]

text \<open>
  \<^verbatim>\<open>polygons.set_geometry("polygon").to_crs("EPSG:4326")\<close>: every geometry of the
  column \<^verbatim>\<open>polygon\<close> is reprojected.
\<close>

definition frame_to_crs :: "('g \<Rightarrow> 'g) \<Rightarrow> 'g port_polygon list \<Rightarrow> 'g port_polygon list" where
  "frame_to_crs to_crs polygons = map (\<lambda>p. p\<lparr>polygon := to_crs (polygon p)\<rparr>) polygons"

text \<open>
  \<^verbatim>\<open>process_with_polygons\<close>. The loop over the chunks stops at the first chunk
  that raises.
\<close>

definition process_with_polygons ::
  "(real \<times> real \<Rightarrow> 'g \<Rightarrow> bool) \<Rightarrow> ('g \<Rightarrow> 'g) \<Rightarrow> frame \<Rightarrow> 'g port_polygon list \<Rightarrow> int \<Rightarrow>
   error + frame" where
  "process_with_polygons is_within to_crs ais_raw_data polygons chunk_size =
     (let polygons = frame_to_crs to_crs polygons in
      if chunk_size = 0 then Inl ValueError
      else
        bind_e (traverse_e
                  (\<lambda>i. process_chunk is_within polygons
                         (iloc ais_raw_data (nat i) (nat (i + chunk_size))))
                  (range_py 0 (int (length (rows ais_raw_data))) chunk_size)) (\<lambda>results.
        pd_concat results))"

section \<open>The pipeline\<close>

text \<open>
  \<^verbatim>\<open>main\<close>. The loaders of \<^verbatim>\<open>helper_utils\<close> are parameters. The cleaned
  table and the port table are two objects of the store; \<^verbatim>\<open>investigate_data\<close>
  only prints and is left out. The result is the table that \<^verbatim>\<open>to_csv\<close> writes:
  the column labels as the header line, then one line per row.
\<close>

definition main ::
  "(real \<Rightarrow> real) \<Rightarrow> (string \<Rightarrow> error + frame) \<Rightarrow> (frame \<Rightarrow> error + frame) \<Rightarrow>
   (frame \<Rightarrow> error + frame) \<Rightarrow> (frame \<Rightarrow> error + frame) \<Rightarrow> error + frame \<Rightarrow>
   error + 'g port_polygon list \<Rightarrow> (real \<times> real \<Rightarrow> 'g \<Rightarrow> bool) \<Rightarrow> ('g \<Rightarrow> 'g) \<Rightarrow> error + frame" where
  "main fl load_raw_data remove_NA remove_invalid_lat_and_lon remove_invalid_speed
     load_port_info load_port_polygons is_within to_crs =
     bind_e (load_and_clean_data load_raw_data remove_NA remove_invalid_lat_and_lon
               remove_invalid_speed ''data/raw_data/raw_data.parquet'') (\<lambda>ais_raw_data.
     bind_e load_port_info (\<lambda>port_info.
     bind_e load_port_polygons (\<lambda>polygons.
     let s = (\<lambda>a. if a = 0 then ais_raw_data else drop_duplicates port_info);
         polygons = keep_first [] polygons in
     bind_e (create_proximity_columns fl s 0 1) (\<lambda>(s, ais_raw_data).
     process_with_polygons is_within to_crs (s ais_raw_data) polygons 10000))))"

section \<open>Notions used in the statements\<close>

text \<open>The cells of a column, and the cell of the row at position \<open>i\<close> in a column.\<close>

definition column :: "frame \<Rightarrow> string \<Rightarrow> val list" where
  "column df c = map (\<lambda>r. lookup (cols df) r c) (rows df)"

definition cell :: "frame \<Rightarrow> nat \<Rightarrow> string \<Rightarrow> val" where
  "cell df i c = lookup (cols df) (rows df ! i) c"

text \<open>The eight columns that the nearest-port annotator assigns.\<close>

definition proximity_columns :: "string list" where
  "proximity_columns =
     [''Distance to Nearest Port'', ''Proximity Port Name'', ''Port Latitude'', ''Port Longitude'',
      ''Less than 1 km from port'', ''Less than 3 km from port'', ''Less than 5 km from port'',
      ''Less than 10 km from port'']"

definition flag_label :: "string \<Rightarrow> string" where
  "flag_label l = ''Less than '' @ l @ '' from port''"

text \<open>The rows in which the four threshold flags all read \<^verbatim>\<open>"No"\<close>.\<close>

definition far_mask :: "frame \<Rightarrow> bool list" where
  "far_mask df =
     and_mask (and_mask (and_mask
       (eq_mask (column df ''Less than 1 km from port'') (Str ''No''))
       (eq_mask (column df ''Less than 3 km from port'') (Str ''No'')))
       (eq_mask (column df ''Less than 5 km from port'') (Str ''No'')))
       (eq_mask (column df ''Less than 10 km from port'') (Str ''No''))"

definition all_flags_no :: "frame \<Rightarrow> nat \<Rightarrow> bool" where
  "all_flags_no df i =
     (cell df i ''Less than 1 km from port'' = Str ''No'' \<and>
      cell df i ''Less than 3 km from port'' = Str ''No'' \<and>
      cell df i ''Less than 5 km from port'' = Str ''No'' \<and>
      cell df i ''Less than 10 km from port'' = Str ''No'')"

text \<open>
  The brute-force reference of the nearest-port distance: the coordinates of all the rows
  of the port table, and the least Euclidean distance from a point to one of them.
\<close>

definition port_points :: "frame \<Rightarrow> (real \<times> real) list" where
  "port_points port_info =
     concat (map (\<lambda>r. case (lookup (cols port_info) r ''Latitude'',
                               lookup (cols port_info) r ''Longitude'') of
                          (Num x, Num y) \<Rightarrow> [(x, y)] | _ \<Rightarrow> [])
               (rows port_info))"

definition brute_force_distance :: "(real \<Rightarrow> real) \<Rightarrow> frame \<Rightarrow> real \<times> real \<Rightarrow> real" where
  "brute_force_distance fl port_info x = Min (set (map (euclid fl x) (port_points port_info)))"

text \<open>
  A table has coordinates under two labels when both columns exist and hold numbers in
  every row.
\<close>

definition has_coordinates :: "frame \<Rightarrow> string \<Rightarrow> string \<Rightarrow> bool" where
  "has_coordinates df a b =
     (a \<in> set (cols df) \<and> b \<in> set (cols df) \<and>
      list_all (\<lambda>r. \<not> isl (point_of (lookup (cols df) r a, lookup (cols df) r b))) (rows df))"

text \<open>
  For the search in the index: the positions that a tree holds; the ordering of a tree
  (below the split on the left, not below on the right); and what it means for a
  candidate to be a nearest point among the positions \<open>S\<close>.
\<close>

fun indices :: "kdtree \<Rightarrow> nat set" where
  "indices (Leaf idx) = set idx"
| "indices (Node ax split l r) = indices l \<union> indices r"

fun kd_inv :: "(real \<times> real) list \<Rightarrow> kdtree \<Rightarrow> bool" where
  "kd_inv data (Leaf idx) = True"
| "kd_inv data (Node ax split l r) =
     ((\<forall>i\<in>indices l. coord ax (data ! i) < split) \<and>
      (\<forall>i\<in>indices r. \<not> coord ax (data ! i) < split) \<and> kd_inv data l \<and> kd_inv data r)"

definition is_best ::
  "(real \<Rightarrow> real) \<Rightarrow> (real \<times> real) list \<Rightarrow> real \<times> real \<Rightarrow> nat set \<Rightarrow> (real \<times> nat) option \<Rightarrow> bool" where
  "is_best fl data x S best =
     (case best of None \<Rightarrow> S = {}
      | Some b \<Rightarrow> snd b \<in> S \<and> euclid fl x (data ! snd b) = fst b \<and>
          (\<forall>i\<in>S. fst b \<le> euclid fl x (data ! i)))"

text \<open>Polygons that do not overlap: no point is within two of them.\<close>

definition non_overlapping :: "(real \<times> real \<Rightarrow> 'g \<Rightarrow> bool) \<Rightarrow> 'g port_polygon list \<Rightarrow> bool" where
  "non_overlapping is_within polygons =
     (\<forall>pt. length (filter (\<lambda>p. is_within pt (polygon p)) polygons) \<le> 1)"

text \<open>
  What \<^verbatim>\<open>process_chunk\<close> does to the column labels and to one row, written
  without the frame around it: the conditions under which no step raises, the labels of
  the result, and the rows that one row of the chunk gives.
\<close>

definition chunk_cols_ok :: "string list \<Rightarrow> bool" where
  "chunk_cols_ok cs = (''longitude'' \<in> set cs \<and> ''latitude'' \<in> set cs \<and>
     ''index_left'' \<notin> set cs \<and> ''index_right'' \<notin> set cs \<and> ''port_name'' \<notin> set cs)"

definition chunk_row_ok :: "string list \<Rightarrow> val list \<Rightarrow> bool" where
  "chunk_row_ok cs r = (\<not> isl (xy_point (lookup cs r ''longitude'', lookup cs r ''latitude'')))"

definition geometry_of :: "string list \<Rightarrow> val list \<Rightarrow> val" where
  "geometry_of cs r =
     (case xy_point (lookup cs r ''longitude'', lookup cs r ''latitude'') of
        Inr g \<Rightarrow> g | Inl e \<Rightarrow> NaN)"

definition chunk_cols :: "string list \<Rightarrow> string list" where
  "chunk_cols cs =
     filter (\<lambda>c. c \<notin> set [''geometry'', ''index_right''])
       (set_col (set_col (set_col cs ''geometry'' @ [''index_right'', ''port_name''])
          ''Parked in Port'') ''Port Name'')"

definition finish_row :: "string list \<Rightarrow> val list \<Rightarrow> val list" where
  "finish_row cs rj =
     (let cs2 = set_col cs ''geometry'' @ [''index_right'', ''port_name''];
          cs3 = set_col cs2 ''Parked in Port'';
          cs4 = set_col cs3 ''Port Name'';
          r3 = set_cell cs2 ''Parked in Port'' (notnull (lookup cs2 rj ''index_right'')) rj;
          r4 = set_cell cs3 ''Port Name''
                 (where_val (Str ''No'') (lookup cs3 r3 ''port_name'')
                    (lookup cs3 r3 ''Parked in Port'')) r3
      in drop_cells cs4 [''geometry'', ''index_right''] r4)"

definition chunk_row ::
  "(real \<times> real \<Rightarrow> 'g \<Rightarrow> bool) \<Rightarrow> 'g port_polygon list \<Rightarrow> string list \<Rightarrow> val list \<Rightarrow> val list list" where
  "chunk_row is_within polygons cs r =
     map (finish_row cs)
       (join_row is_within polygons (set_col cs ''geometry'')
          (set_cell cs ''geometry'' (geometry_of cs r) r))"

section \<open>Example data\<close>

text \<open>
  Two vessel positions and one port, at distances 1 and 20 of the positions, and what the
  nearest-port annotator makes of the positions.
\<close>

definition ex_vessels :: frame where
  "ex_vessels = \<lparr>cols = [''latitude'', ''longitude'', ''speed''],
                  rows = [[Num 0, Num 0, Num 5], [Num 20, Num 1, Num 3]]\<rparr>"

definition ex_ports :: frame where
  "ex_ports = \<lparr>cols = [''Main Port Name'', ''Latitude'', ''Longitude''],
                rows = [[Str ''Alpha'', Num 0, Num 1]]\<rparr>"

definition ex_store :: store where
  "ex_store = (\<lambda>a. if a = 0 then ex_vessels else ex_ports)"

definition ex_annotated :: frame where
  "ex_annotated =
     \<lparr>cols = [''latitude'', ''longitude'', ''speed'', ''Distance to Nearest Port'',
              ''Proximity Port Name'', ''Port Latitude'', ''Port Longitude'',
              ''Less than 1 km from port'', ''Less than 3 km from port'',
              ''Less than 5 km from port'', ''Less than 10 km from port''],
      rows = [[Num 0, Num 0, Num 5, Num 1, Str ''Alpha'', Num 0, Num 1,
               Str ''Yes'', Str ''Yes'', Str ''Yes'', Str ''Yes''],
              [Num 20, Num 1, Num 3, Num 20, Str ''No'', NaN, NaN,
               Str ''No'', Str ''No'', Str ''No'', Str ''No'']]\<rparr>"

text \<open>
  A port table of eighteen ports on a line, more than a leaf of the index holds; the
  nearest to the first position is the last row.
\<close>

definition ex_line_ports :: frame where
  "ex_line_ports = \<lparr>cols = [''Main Port Name'', ''Latitude'', ''Longitude''],
     rows = map (\<lambda>k. [Str (replicate k CHR ''p''), Num 0, Num (real k)])
              [18, 17, 16, 15, 14, 13, 12, 11, 10, 9, 8, 7, 6, 5, 4, 3, 2, 1]\<rparr>"

definition ex_line_store :: store where
  "ex_line_store = (\<lambda>a. if a = 0 then ex_vessels else ex_line_ports)"

text \<open>
  Two port areas, a square and a square with a square hole. The first annotated position
  is inside the first area, the second is far from both.
\<close>

definition ex_areas :: "shape port_polygon list" where
  "ex_areas =
     [\<lparr>polygon = Polygon [(-1, -1), (2, -1), (2, 2), (-1, 2), (-1, -1)] [],
       port_name = Str ''Alpha''\<rparr>,
      \<lparr>polygon = Polygon [(10, 10), (14, 10), (14, 14), (10, 14), (10, 10)]
                   [[(11, 11), (13, 11), (13, 13), (11, 13), (11, 11)]],
       port_name = Str ''Beta''\<rparr>]"

definition ex_final :: frame where
  "ex_final =
     \<lparr>cols = [''latitude'', ''longitude'', ''speed'', ''Distance to Nearest Port'',
              ''Proximity Port Name'', ''Port Latitude'', ''Port Longitude'',
              ''Less than 1 km from port'', ''Less than 3 km from port'',
              ''Less than 5 km from port'', ''Less than 10 km from port'',
              ''port_name'', ''Parked in Port'', ''Port Name''],
      rows = [[Num 0, Num 0, Num 5, Num 1, Str ''Alpha'', Num 0, Num 1,
               Str ''Yes'', Str ''Yes'', Str ''Yes'', Str ''Yes'',
               Str ''Alpha'', Bool True, Str ''Alpha''],
              [Num 20, Num 1, Num 3, Num 20, Str ''No'', NaN, NaN,
               Str ''No'', Str ''No'', Str ''No'', Str ''No'',
               NaN, Bool False, Str ''No'']]\<rparr>"

text \<open>
  Five positions: inside the first area, on its boundary, inside the second area, in its
  hole, and far away; and what the polygon containment stage makes of them.
\<close>

definition ex_positions :: frame where
  "ex_positions = \<lparr>cols = [''latitude'', ''longitude''],
     rows = [[Num 0, Num 0], [Num 0, Num 2], [Num 10.5, Num 12], [Num 12, Num 12],
             [Num 20, Num 1]]\<rparr>"

definition ex_parked :: frame where
  "ex_parked =
     \<lparr>cols = [''latitude'', ''longitude'', ''port_name'', ''Parked in Port'', ''Port Name''],
      rows = [[Num 0, Num 0, Str ''Alpha'', Bool True, Str ''Alpha''],
              [Num 0, Num 2, NaN, Bool False, Str ''No''],
              [Num 10.5, Num 12, Str ''Beta'', Bool True, Str ''Beta''],
              [Num 12, Num 12, NaN, Bool False, Str ''No''],
              [Num 20, Num 1, NaN, Bool False, Str ''No'']]\<rparr>"

text \<open>
  A position table that already carries columns named \<^verbatim>\<open>Port Name\<close> and
  \<^verbatim>\<open>geometry\<close>, and what the two annotation stages make of it.
\<close>

definition ex_named :: frame where
  "ex_named = \<lparr>cols = [''latitude'', ''longitude'', ''Port Name'', ''geometry''],
                rows = [[Num 0, Num 0, Str ''Rotterdam'', Str ''POINT (0 0)'']]\<rparr>"

definition ex_named_store :: store where
  "ex_named_store = (\<lambda>a. if a = 0 then ex_named else ex_ports)"

definition ex_named_annotated :: frame where
  "ex_named_annotated =
     \<lparr>cols = [''latitude'', ''longitude'', ''Port Name'', ''geometry'',
              ''Distance to Nearest Port'', ''Proximity Port Name'', ''Port Latitude'',
              ''Port Longitude'', ''Less than 1 km from port'', ''Less than 3 km from port'',
              ''Less than 5 km from port'', ''Less than 10 km from port''],
      rows = [[Num 0, Num 0, Str ''Rotterdam'', Str ''POINT (0 0)'', Num 1, Str ''Alpha'',
               Num 0, Num 1, Str ''Yes'', Str ''Yes'', Str ''Yes'', Str ''Yes'']]\<rparr>"

definition ex_named_final :: frame where
  "ex_named_final =
     \<lparr>cols = [''latitude'', ''longitude'', ''Port Name'',
              ''Distance to Nearest Port'', ''Proximity Port Name'', ''Port Latitude'',
              ''Port Longitude'', ''Less than 1 km from port'', ''Less than 3 km from port'',
              ''Less than 5 km from port'', ''Less than 10 km from port'',
              ''port_name'', ''Parked in Port''],
      rows = [[Num 0, Num 0, Str ''Alpha'', Num 1, Str ''Alpha'',
               Num 0, Num 1, Str ''Yes'', Str ''Yes'', Str ''Yes'', Str ''Yes'',
               Str ''Alpha'', Bool True]]\<rparr>"

text \<open>
  A raw table for the cleaning stage, with a missing value, a latitude out of range, a
  negative speed and repeated rows, and three filters for it. The second filter raises on
  a missing value and the third on a latitude out of range, so that each needs the one
  before it to have run.
\<close>

definition ex_raw :: frame where
  "ex_raw = \<lparr>cols = [''latitude'', ''longitude'', ''speed''],
     rows = [[Num 1, Num 2, Num 5], [NaN, Num 2, Num 5], [Num 1, Num 2, Num 5],
             [Num 95, Num 2, Num 5], [Num 3, Num 4, Num (-1)], [Num 3, Num 4, Num 6],
             [Num 1, Num 2, Num 5], [Num 7, Num 8, Num 9]]\<rparr>"

definition ex_remove_NA :: "frame \<Rightarrow> error + frame" where
  "ex_remove_NA d = Inr (d\<lparr>rows := filter (\<lambda>r. NaN \<notin> set r) (rows d)\<rparr>)"

definition ex_remove_invalid_lat_and_lon :: "frame \<Rightarrow> error + frame" where
  "ex_remove_invalid_lat_and_lon d =
     (if list_ex (\<lambda>r. NaN \<in> set r) (rows d) then Inl TypeError
      else Inr (d\<lparr>rows := filter (\<lambda>r. le_val (r ! 0) 90 \<and> le_val (r ! 1) 180) (rows d)\<rparr>))"

definition ex_remove_invalid_speed :: "frame \<Rightarrow> error + frame" where
  "ex_remove_invalid_speed d =
     (if list_ex (\<lambda>r. \<not> le_val (r ! 0) 90) (rows d) then Inl ValueError
      else Inr (d\<lparr>rows := filter (\<lambda>r. \<not> le_val (r ! 2) (-1)) (rows d)\<rparr>))"

definition ex_cleaned :: frame where
  "ex_cleaned = \<lparr>cols = [''latitude'', ''longitude'', ''speed''],
     rows = [[Num 1, Num 2, Num 5], [Num 3, Num 4, Num 6], [Num 7, Num 8, Num 9]]\<rparr>"

section \<open>Properties of cleaning\<close>

lemma bind_e_Inr_iff:
  "bind_e m f = Inr y \<longleftrightarrow> (\<exists>x. m = Inr x \<and> f x = Inr y)"
  by (cases m) (simp_all add: bind_e_def)

lemma bind_e_simps [simp]:
  "bind_e (Inl e) f = Inl e"
  "bind_e (Inr x) f = f x"
  by (simp_all add: bind_e_def)

lemma keep_first_set: "set (keep_first seen rs) = set rs - set seen"
  by (induction rs arbitrary: seen) auto

lemma keep_first_distinct: "distinct (keep_first seen rs)"
  by (induction rs arbitrary: seen) (simp_all add: keep_first_set)

lemma keep_first_cong: "set seen = set seen' \<Longrightarrow> keep_first seen rs = keep_first seen' rs"
proof (induction rs arbitrary: seen seen')
  case Nil
  show ?case by simp
next
  case (Cons r rs)
  have "keep_first (r # seen) rs = keep_first (r # seen') rs"
    by (rule Cons.IH) (simp add: Cons.prems)
  moreover have "keep_first seen rs = keep_first seen' rs" by (rule Cons.IH) (rule Cons.prems)
  ultimately show ?case using Cons.prems by simp
qed

text \<open>The rows kept are the first occurrences, in the order of the table.\<close>

lemma keep_first_positions:
  "keep_first seen rs =
     map ((!) rs) (filter (\<lambda>i. rs ! i \<notin> set seen \<union> set (take i rs)) [0..<length rs])"
proof (induction rs arbitrary: seen)
  case Nil
  show ?case by simp
next
  case (Cons r rs)
  have up: "[0..<length (r # rs)] = 0 # map Suc [0..<length rs]"
    by (simp add: upt_conv_Cons map_Suc_upt del: upt_Suc)
  have tl: "map ((!) (r # rs))
        (filter (\<lambda>i. (r # rs) ! i \<notin> set seen \<union> set (take i (r # rs))) (map Suc [0..<length rs]))
      = keep_first (r # seen) rs"
    unfolding Cons.IH [of "r # seen"] by (simp add: filter_map comp_def conj_ac)
  have seen: "r \<in> set seen \<Longrightarrow> keep_first (r # seen) rs = keep_first seen rs"
    by (rule keep_first_cong) auto
  show ?case unfolding up using tl seen by simp
qed

lemma drop_duplicates_rows:
  "rows (drop_duplicates d) =
     map ((!) (rows d)) (filter (\<lambda>i. rows d ! i \<notin> set (take i (rows d))) [0..<length (rows d)])"
  using keep_first_positions [of "[]" "rows d"] by (simp add: drop_duplicates_def)

text \<open>
  C8. The cleaning stage runs null removal, then coordinate validation, then speed
  validation, then the removal of exact duplicates, each on the result of the step before
  (an error of a step ends the stage). Whenever it returns a table, the loader and the
  three filters have returned tables \<open>d0\<close>, \<open>d1\<close>, \<open>d2\<close> and \<open>d3\<close> in this order, and the
  result has the columns of \<open>d3\<close> and exactly the rows of \<open>d3\<close>, each once: no two rows of
  the result agree in all columns, and its rows are the rows of \<open>d3\<close> that no earlier row
  of \<open>d3\<close> equals, in the order of \<open>d3\<close>.
\<close>

theorem load_and_clean_data_order_distinct:
  "load_and_clean_data ld rna rll rsp path =
     bind_e (bind_e (bind_e (bind_e (ld path) rna) rll) rsp) (\<lambda>d. Inr (drop_duplicates d))
   \<and> (\<forall>df. load_and_clean_data ld rna rll rsp path = Inr df \<longrightarrow>
        (\<exists>d0 d1 d2 d3. ld path = Inr d0 \<and> rna d0 = Inr d1 \<and> rll d1 = Inr d2 \<and> rsp d2 = Inr d3 \<and>
           cols df = cols d3 \<and> distinct (rows df) \<and> set (rows df) = set (rows d3) \<and>
           rows df = map ((!) (rows d3))
             (filter (\<lambda>i. rows d3 ! i \<notin> set (take i (rows d3))) [0..<length (rows d3)])))"
proof (intro conjI allI impI)
  show "load_and_clean_data ld rna rll rsp path =
     bind_e (bind_e (bind_e (bind_e (ld path) rna) rll) rsp) (\<lambda>d. Inr (drop_duplicates d))"
    unfolding load_and_clean_data_def bind_e_def by (simp split: sum.splits)
next
  fix df assume "load_and_clean_data ld rna rll rsp path = Inr df"
  then obtain d0 d1 d2 d3 where s: "ld path = Inr d0" "rna d0 = Inr d1" "rll d1 = Inr d2"
    "rsp d2 = Inr d3" and df: "df = drop_duplicates d3"
    by (auto simp: load_and_clean_data_def bind_e_Inr_iff)
  have "cols df = cols d3" "distinct (rows df)" "set (rows df) = set (rows d3)"
    by (simp_all add: df drop_duplicates_def keep_first_distinct keep_first_set)
  with s drop_duplicates_rows [of d3]
  show "\<exists>d0 d1 d2 d3. ld path = Inr d0 \<and> rna d0 = Inr d1 \<and> rll d1 = Inr d2 \<and> rsp d2 = Inr d3 \<and>
           cols df = cols d3 \<and> distinct (rows df) \<and> set (rows df) = set (rows d3) \<and>
           rows df = map ((!) (rows d3))
             (filter (\<lambda>i. rows d3 ! i \<notin> set (take i (rows d3))) [0..<length (rows d3)])"
    unfolding df by blast
qed

theorem load_and_clean_data_order_distinct_witness:
  "load_and_clean_data (\<lambda>p. Inr ex_raw) ex_remove_NA ex_remove_invalid_lat_and_lon
     ex_remove_invalid_speed ''raw.parquet'' = Inr ex_cleaned \<and>
   ex_remove_invalid_lat_and_lon ex_raw = Inl TypeError \<and>
   bind_e (ex_remove_NA ex_raw) ex_remove_invalid_speed = Inl ValueError \<and>
   distinct (rows ex_cleaned) \<and>
   rows ex_cleaned = map ((!) (rows ex_raw)) [0, 5, 7]"
proof -
  have run: "load_and_clean_data (\<lambda>p. Inr ex_raw) ex_remove_NA ex_remove_invalid_lat_and_lon
     ex_remove_invalid_speed ''raw.parquet'' = Inr ex_cleaned"
    using load_and_clean_data_order_distinct
      [of "\<lambda>p. Inr ex_raw" ex_remove_NA ex_remove_invalid_lat_and_lon ex_remove_invalid_speed
        "''raw.parquet''"]
    by (simp add: ex_raw_def ex_remove_NA_def ex_remove_invalid_lat_and_lon_def
        ex_remove_invalid_speed_def ex_cleaned_def drop_duplicates_def)
  from load_and_clean_data_order_distinct
      [of "\<lambda>p. Inr ex_raw" ex_remove_NA ex_remove_invalid_lat_and_lon ex_remove_invalid_speed
        "''raw.parquet''"] run
  have d: "distinct (rows ex_cleaned)" by auto
  have "ex_remove_invalid_lat_and_lon ex_raw = Inl TypeError"
    "bind_e (ex_remove_NA ex_raw) ex_remove_invalid_speed = Inl ValueError"
    "rows ex_cleaned = map ((!) (rows ex_raw)) [0, 5, 7]"
    by (simp_all add: ex_raw_def ex_remove_NA_def ex_remove_invalid_lat_and_lon_def
        ex_remove_invalid_speed_def ex_cleaned_def)
  with run d show ?thesis by simp
qed

section \<open>Columns and cells\<close>

lemma col_pos_less: "c \<in> set cs \<Longrightarrow> col_pos cs c < length cs"
  by (induction cs) auto

lemma col_pos_nth: "c \<in> set cs \<Longrightarrow> cs ! col_pos cs c = c"
  by (induction cs) auto

lemma col_pos_absent: "c \<notin> set cs \<Longrightarrow> col_pos cs c = length cs"
  by (induction cs) auto

lemma col_pos_append: "c \<in> set cs \<Longrightarrow> col_pos (cs @ ds) c = col_pos cs c"
  by (induction cs) auto

lemma col_pos_append_absent: "c \<notin> set cs \<Longrightarrow> col_pos (cs @ ds) c = length cs + col_pos ds c"
  by (induction cs) auto

lemma col_pos_inj: "c \<in> set cs \<Longrightarrow> c' \<in> set cs \<Longrightarrow> col_pos cs c = col_pos cs c' \<longleftrightarrow> c = c'"
  using col_pos_nth by metis

lemma set_set_col: "set (set_col cs c) = insert c (set cs)"
  by (auto simp: set_col_def)

lemma distinct_set_col: "distinct cs \<Longrightarrow> distinct (set_col cs c)"
  by (simp add: set_col_def)

lemma length_set_cell: "length r = length cs \<Longrightarrow> length (set_cell cs c v r) = length (set_col cs c)"
  by (simp add: set_cell_def set_col_def)

lemma lookup_set_cell:
  assumes "length r = length cs" "c' \<in> insert c (set cs)"
  shows "lookup (set_col cs c) (set_cell cs c v r) c' = (if c' = c then v else lookup cs r c')"
proof (cases "c \<in> set cs")
  case True
  with assms have c': "c' \<in> set cs" by auto
  have "col_pos cs c < length r" using True assms(1) by (simp add: col_pos_less)
  then show ?thesis
    using True c' col_pos_inj [OF True c']
    by (auto simp: lookup_def set_col_def set_cell_def)
next
  case False
  show ?thesis
  proof (cases "c' = c")
    case True
    with False assms(1) show ?thesis
      by (simp add: lookup_def set_col_def set_cell_def col_pos_append_absent nth_append)
  next
    case neq: False
    with assms(2) have c': "c' \<in> set cs" by auto
    then have "col_pos cs c' < length r" using assms(1) by (simp add: col_pos_less)
    with False neq c' show ?thesis
      by (simp add: lookup_def set_col_def set_cell_def col_pos_append nth_append)
  qed
qed

lemma getitem_Inr_iff: "getitem df c = Inr vs \<longleftrightarrow> c \<in> set (cols df) \<and> vs = column df c"
  by (auto simp: getitem_def column_def)

lemma length_column [simp]: "length (column df c) = length (rows df)"
  by (simp add: column_def)

lemma setitem_props:
  assumes wf: "wf_frame df" and run: "setitem df c vs = Inr df'"
  shows "wf_frame df'" "length (rows df') = length (rows df)"
    "set (cols df') = insert c (set (cols df))"
    "c' \<in> insert c (set (cols df)) \<Longrightarrow> column df' c' = (if c' = c then vs else column df c')"
proof -
  from run have len: "length vs = length (rows df)"
    and df': "df' = \<lparr>cols = set_col (cols df) c,
                      rows = map2 (\<lambda>r v. set_cell (cols df) c v r) (rows df) vs\<rparr>"
    by (auto simp: setitem_def split: if_splits)
  from wf have rl: "\<And>r. r \<in> set (rows df) \<Longrightarrow> length r = length (cols df)"
    and dist: "distinct (cols df)"
    by (auto simp: wf_frame_def list_all_iff)
  show "wf_frame df'"
    using dist rl unfolding df' wf_frame_def list_all_iff
    by (auto simp: distinct_set_col length_set_cell dest!: set_zip_leftD)
  show "length (rows df') = length (rows df)" using len by (simp add: df')
  show "set (cols df') = insert c (set (cols df))" by (simp add: df' set_set_col)
  assume c': "c' \<in> insert c (set (cols df))"
  show "column df' c' = (if c' = c then vs else column df c')"
  proof (rule nth_equalityI)
    show "length (column df' c') = length (if c' = c then vs else column df c')"
      using len by (simp add: df')
  next
    fix i assume "i < length (column df' c')"
    then have i: "i < length (rows df)" using len by (simp add: df')
    then have "length (rows df ! i) = length (cols df)" using rl by simp
    from lookup_set_cell [OF this c', of "vs ! i"] i len
    show "column df' c' ! i = (if c' = c then vs else column df c') ! i"
      by (simp add: column_def df')
  qed
qed

lemma traverse_e_Inr_iff:
  "traverse_e f xs = Inr ys \<longleftrightarrow> list_all2 (\<lambda>x y. f x = Inr y) xs ys"
proof (induction xs arbitrary: ys)
  case Nil
  show ?case by auto
next
  case (Cons x xs)
  show ?case by (cases ys) (auto simp: bind_e_Inr_iff Cons.IH)
qed

lemma flag_label_inj: "flag_label l = flag_label l' \<longleftrightarrow> l = l'"
  by (simp add: flag_label_def)

lemma flag_label_neq: "flag_label l \<noteq> ''Distance to Nearest Port''"
  by (simp add: flag_label_def)

lemma store_setitem_props:
  assumes wf: "wf_frame (s a)" and run: "store_setitem s a c vs = Inr s'"
  shows "\<forall>b. b \<noteq> a \<longrightarrow> s' b = s b" "wf_frame (s' a)"
    "length (rows (s' a)) = length (rows (s a))"
    "set (cols (s' a)) = insert c (set (cols (s a)))"
    "\<And>c'. c' \<in> insert c (set (cols (s a))) \<Longrightarrow>
       column (s' a) c' = (if c' = c then vs else column (s a) c')"
proof -
  from run obtain df' where df': "setitem (s a) c vs = Inr df'" and s': "s' = s(a := df')"
    by (auto simp: store_setitem_def bind_e_Inr_iff)
  show "\<forall>b. b \<noteq> a \<longrightarrow> s' b = s b" by (simp add: s')
  show "wf_frame (s' a)" using setitem_props(1) [OF wf df'] by (simp add: s')
  show "length (rows (s' a)) = length (rows (s a))"
    using setitem_props(2) [OF wf df'] by (simp add: s')
  show "set (cols (s' a)) = insert c (set (cols (s a)))"
    using setitem_props(3) [OF wf df'] by (simp add: s')
  show "\<And>c'. c' \<in> insert c (set (cols (s a))) \<Longrightarrow>
       column (s' a) c' = (if c' = c then vs else column (s a) c')"
    using setitem_props(4) [OF wf df'] by (simp add: s')
qed

lemma threshold_loop_props:
  assumes "threshold_loop s a ts = Inr s'" "wf_frame (s a)"
    "distinct (map snd ts)"
  shows "(\<forall>b. b \<noteq> a \<longrightarrow> s' b = s b) \<and> wf_frame (s' a) \<and>
    length (rows (s' a)) = length (rows (s a)) \<and>
    set (cols (s' a)) = set (cols (s a)) \<union> (flag_label \<circ> snd) ` set ts \<and>
    (\<forall>c\<in>set (cols (s a)). c \<notin> (flag_label \<circ> snd) ` set ts \<longrightarrow>
        column (s' a) c = column (s a) c) \<and>
    (\<forall>(d, l)\<in>set ts. column (s' a) (flag_label l) =
        map (\<lambda>v. yes_no (le_val v d)) (column (s a) ''Distance to Nearest Port''))"
  using assms
proof (induction ts arbitrary: s)
  case Nil
  then show ?case by simp
next
  case (Cons dl ts)
  obtain d l where dl: "dl = (d, l)" by (cases dl)
  from Cons.prems(1) obtain ds s1 where
    ds: "getitem (s a) ''Distance to Nearest Port'' = Inr ds" and
    s1: "store_setitem s a (flag_label l) (map (\<lambda>v. yes_no (le_val v d)) ds) = Inr s1" and
    rest: "threshold_loop s1 a ts = Inr s'"
    by (auto simp: dl bind_e_Inr_iff flag_label_def)
  note P = store_setitem_props [OF Cons.prems(2) s1]
  from ds have Din: "''Distance to Nearest Port'' \<in> set (cols (s a))"
    and dsc: "ds = column (s a) ''Distance to Nearest Port''"
    by (auto simp: getitem_Inr_iff)
  from Cons.prems(3) have dist: "distinct (map snd ts)" and lnot: "l \<notin> snd ` set ts"
    by (auto simp: dl)
  note IH = Cons.IH [OF rest P(2) dist]
  have D1: "column (s1 a) ''Distance to Nearest Port'' = column (s a) ''Distance to Nearest Port''"
    using P(5) [of "''Distance to Nearest Port''"] Din flag_label_neq [of l] by auto
  have lfresh: "flag_label l \<notin> (flag_label \<circ> snd) ` set ts"
    using lnot by (force simp: flag_label_inj)
  have l1: "flag_label l \<in> set (cols (s1 a))" using P(4) by simp
  show ?case
  proof (intro conjI)
    show "\<forall>b. b \<noteq> a \<longrightarrow> s' b = s b" using IH P(1) by simp
    show "wf_frame (s' a)" using IH by simp
    show "length (rows (s' a)) = length (rows (s a))" using IH P(3) by simp
    show "set (cols (s' a)) = set (cols (s a)) \<union> (flag_label \<circ> snd) ` set (dl # ts)"
      using IH P(4) by (auto simp: dl)
    show "\<forall>c\<in>set (cols (s a)). c \<notin> (flag_label \<circ> snd) ` set (dl # ts) \<longrightarrow>
        column (s' a) c = column (s a) c"
    proof (intro ballI impI)
      fix c assume c: "c \<in> set (cols (s a))" and n: "c \<notin> (flag_label \<circ> snd) ` set (dl # ts)"
      then have "c \<noteq> flag_label l" "c \<notin> (flag_label \<circ> snd) ` set ts" by (auto simp: dl)
      moreover have "c \<in> set (cols (s1 a))" using c P(4) by simp
      ultimately have "column (s' a) c = column (s1 a) c" using IH by blast
      also have "\<dots> = column (s a) c" using P(5) [of c] c \<open>c \<noteq> flag_label l\<close> by simp
      finally show "column (s' a) c = column (s a) c" .
    qed
    show "\<forall>(d, l)\<in>set (dl # ts). column (s' a) (flag_label l) =
        map (\<lambda>v. yes_no (le_val v d)) (column (s a) ''Distance to Nearest Port'')"
    proof (intro ballI)
      fix x assume x: "x \<in> set (dl # ts)"
      obtain d' l' where x': "x = (d', l')" by (cases x)
      show "case x of (d, l) \<Rightarrow> column (s' a) (flag_label l) =
        map (\<lambda>v. yes_no (le_val v d)) (column (s a) ''Distance to Nearest Port'')"
      proof (cases "x = dl")
        case True
        have "column (s' a) (flag_label l) = column (s1 a) (flag_label l)"
          using IH l1 lfresh by blast
        also have "\<dots> = map (\<lambda>v. yes_no (le_val v d)) ds" using P(5) [of "flag_label l"] by simp
        finally show ?thesis using True dl dsc by simp
      next
        case False
        with x have "x \<in> set ts" by simp
        with IH have "column (s' a) (flag_label l') =
          map (\<lambda>v. yes_no (le_val v d')) (column (s1 a) ''Distance to Nearest Port'')"
          by (auto simp: x')
        then show ?thesis by (simp add: x' D1)
      qed
    qed
  qed
qed

lemma loc_setitem_props:
  assumes "loc_setitem df sel cvs = Inr df'" "wf_frame df" "distinct (map fst cvs)"
  shows "wf_frame df' \<and> length (rows df') = length (rows df) \<and>
    set (cols df') = set (cols df) \<and>
    (\<forall>c\<in>set (cols df). c \<notin> fst ` set cvs \<longrightarrow> column df' c = column df c) \<and>
    (\<forall>(c, v)\<in>set cvs. column df' c = map2 (\<lambda>m x. if m then v else x) sel (column df c))"
  using assms
proof (induction cvs arbitrary: df)
  case Nil
  then show ?case by simp
next
  case (Cons cv cvs)
  obtain c v where cv: "cv = (c, v)" by (cases cv)
  from Cons.prems(1) obtain old d1 where
    old: "getitem df c = Inr old" and
    d1: "setitem df c (map2 (\<lambda>m x. if m then v else x) sel old) = Inr d1" and
    rest: "loc_setitem d1 sel cvs = Inr df'"
    by (auto simp: cv bind_e_Inr_iff)
  from old have cin: "c \<in> set (cols df)" and oldc: "old = column df c"
    by (auto simp: getitem_Inr_iff)
  note P = setitem_props [OF Cons.prems(2) d1]
  from Cons.prems(3) have dist: "distinct (map fst cvs)" and cnot: "c \<notin> fst ` set cvs"
    by (auto simp: cv)
  note IH = Cons.IH [OF rest P(1) dist]
  have cols1: "set (cols d1) = set (cols df)" using P(3) cin by auto
  show ?case
  proof (intro conjI)
    show "wf_frame df'" using IH by simp
    show "length (rows df') = length (rows df)" using IH P(2) by simp
    show "set (cols df') = set (cols df)" using IH cols1 by simp
    show "\<forall>c\<in>set (cols df). c \<notin> fst ` set (cv # cvs) \<longrightarrow> column df' c = column df c"
    proof (intro ballI impI)
      fix c' assume c': "c' \<in> set (cols df)" and n: "c' \<notin> fst ` set (cv # cvs)"
      then have ne: "c' \<noteq> c" and n': "c' \<notin> fst ` set cvs" by (auto simp: cv)
      have "column df' c' = column d1 c'" using IH c' n' cols1 by blast
      also have "\<dots> = column df c'" using P(4) [of c'] c' ne by simp
      finally show "column df' c' = column df c'" .
    qed
    show "\<forall>(c, v)\<in>set (cv # cvs).
       column df' c = map2 (\<lambda>m x. if m then v else x) sel (column df c)"
    proof (intro ballI)
      fix x assume x: "x \<in> set (cv # cvs)"
      obtain c' v' where x': "x = (c', v')" by (cases x)
      show "case x of (c, v) \<Rightarrow>
        column df' c = map2 (\<lambda>m x. if m then v else x) sel (column df c)"
      proof (cases "x = cv")
        case True
        have "column df' c = column d1 c" using IH cin cnot cols1 by blast
        also have "\<dots> = map2 (\<lambda>m x. if m then v else x) sel old" using P(4) [of c] by simp
        finally show ?thesis using True cv oldc by simp
      next
        case False
        with x have xin: "x \<in> set cvs" by simp
        then have "c' \<in> fst ` set cvs" by (force simp: x')
        with cnot have ne: "c' \<noteq> c" by auto
        from xin IH have "column df' c' = map2 (\<lambda>m x. if m then v' else x) sel (column d1 c')"
          by (auto simp: x')
        moreover have "c' \<in> set (cols df)"
        proof -
          from xin rest have "c' \<in> set (cols d1)"
          proof (induction cvs arbitrary: d1)
            case Nil then show ?case by simp
          next
            case (Cons y ys)
            obtain a b where y: "y = (a, b)" by (cases y)
            from Cons.prems(2) obtain o2 d2 where
              g: "getitem d1 a = Inr o2" and st: "setitem d1 a (map2 (\<lambda>m x. if m then b else x) sel o2) = Inr d2"
              and r2: "loc_setitem d2 sel ys = Inr df'"
              by (auto simp: y bind_e_Inr_iff)
            from g have ain: "a \<in> set (cols d1)" by (simp add: getitem_Inr_iff)
            from st have "set (cols d2) = insert a (set (cols d1))"
              by (auto simp: setitem_def set_set_col split: if_splits)
            with ain have eq: "set (cols d2) = set (cols d1)" by auto
            show ?case
            proof (cases "x = y")
              case True then show ?thesis using ain y x' by simp
            next
              case False
              with Cons.prems(1) have "x \<in> set ys" by simp
              from Cons.IH [OF this r2] eq show ?thesis by simp
            qed
          qed
          then show ?thesis using cols1 by simp
        qed
        ultimately show ?thesis using P(4) [of c'] ne by (simp add: x')
      qed
    qed
  qed
qed

lemma store_loc_setitem_props:
  assumes "store_loc_setitem s a sel cvs = Inr s'" "wf_frame (s a)" "distinct (map fst cvs)"
  shows "(\<forall>b. b \<noteq> a \<longrightarrow> s' b = s b) \<and> wf_frame (s' a) \<and>
    length (rows (s' a)) = length (rows (s a)) \<and>
    set (cols (s' a)) = set (cols (s a)) \<and>
    (\<forall>c\<in>set (cols (s a)). c \<notin> fst ` set cvs \<longrightarrow> column (s' a) c = column (s a) c) \<and>
    (\<forall>(c, v)\<in>set cvs. column (s' a) c = map2 (\<lambda>m x. if m then v else x) sel (column (s a) c))"
proof -
  from assms(1) obtain df' where df': "loc_setitem (s a) sel cvs = Inr df'" and s': "s' = s(a := df')"
    by (auto simp: store_loc_setitem_def bind_e_Inr_iff)
  from loc_setitem_props [OF df' assms(2,3)] show ?thesis by (simp add: s')
qed

section \<open>Nearest neighbours\<close>

lemma is_best_closer:
  assumes "is_best fl data x S best"
  shows "is_best fl data x (insert i S) (closer (euclid fl x (data ! i), i) best)"
proof (cases best)
  case None
  with assms show ?thesis by (simp add: is_best_def)
next
  case (Some b)
  with assms show ?thesis by (auto simp: is_best_def)
qed

lemma is_best_scan:
  "is_best fl data x S best \<Longrightarrow> is_best fl data x (S \<union> set idx) (scan fl data x idx best)"
proof (induction idx arbitrary: S best)
  case Nil
  then show ?case by simp
next
  case (Cons i idx)
  from Cons.IH [OF is_best_closer [OF Cons.prems, of i]] show ?case by simp
qed

lemma square_mono_pos: "0 \<le> b \<Longrightarrow> b \<le> a \<Longrightarrow> b\<^sup>2 \<le> (a::real)\<^sup>2"
  by (simp add: power_mono)

lemma square_mono_neg: "a \<le> b \<Longrightarrow> b \<le> 0 \<Longrightarrow> b\<^sup>2 \<le> (a::real)\<^sup>2"
  using power_mono [of "- b" "- a" 2] by simp

lemma rounded_square_mono:
  fixes fl :: "real \<Rightarrow> real"
  assumes m: "mono fl" and z: "fl 0 = 0"
    and "u \<le> v \<and> v \<le> 0 \<or> 0 \<le> v \<and> v \<le> u"
  shows "fl ((fl v)\<^sup>2) \<le> fl ((fl u)\<^sup>2)"
proof -
  from assms(3) have "(fl v)\<^sup>2 \<le> (fl u)\<^sup>2"
  proof
    assume a: "u \<le> v \<and> v \<le> 0"
    have "fl u \<le> fl v" using a by (intro monoD [OF m]) simp
    moreover have "fl v \<le> fl 0" using a by (intro monoD [OF m]) simp
    ultimately show ?thesis using z by (intro square_mono_neg) simp_all
  next
    assume a: "0 \<le> v \<and> v \<le> u"
    have "fl 0 \<le> fl v" using a by (intro monoD [OF m]) simp
    moreover have "fl v \<le> fl u" using a by (intro monoD [OF m]) simp
    ultimately show ?thesis using z by (intro square_mono_pos) simp_all
  qed
  then show ?thesis by (rule monoD [OF m])
qed

lemma rounded_square_nonneg:
  fixes fl :: "real \<Rightarrow> real"
  assumes m: "mono fl" and z: "fl 0 = 0"
  shows "0 \<le> fl (u\<^sup>2)"
proof -
  have "fl 0 \<le> fl (u\<^sup>2)" by (rule monoD [OF m]) simp
  then show ?thesis by (simp add: z)
qed

lemma plane_bound:
  assumes m: "mono fl" and z: "fl 0 = 0"
    and side: "coord ax x < split \<and> \<not> coord ax p < split \<or>
               \<not> coord ax x < split \<and> coord ax p < split"
  shows "euclid fl x (plane_point ax split x) \<le> euclid fl x p"
proof -
  let ?u = "coord ax x - coord ax p"
  let ?v = "coord ax x - split"
  from side have "?u \<le> ?v \<and> ?v \<le> 0 \<or> 0 \<le> ?v \<and> ?v \<le> ?u" by auto
  from rounded_square_mono [OF m z this]
  have near: "fl ((fl ?v)\<^sup>2) \<le> fl ((fl ?u)\<^sup>2)" .
  note nn = rounded_square_nonneg [OF m z]
  have sum: "fl ((fl (fst x - fst (plane_point ax split x)))\<^sup>2) +
        fl ((fl (snd x - snd (plane_point ax split x)))\<^sup>2)
      \<le> fl ((fl (fst x - fst p))\<^sup>2) + fl ((fl (snd x - snd p))\<^sup>2)"
  proof (cases ax)
    case True
    with near nn [of "fl (fst x - fst p)"] show ?thesis
      by (simp add: plane_point_def coord_def z)
  next
    case False
    with near nn [of "fl (snd x - snd p)"] show ?thesis
      by (simp add: plane_point_def coord_def z)
  qed
  have "fl (fl ((fl (fst x - fst (plane_point ax split x)))\<^sup>2) +
        fl ((fl (snd x - snd (plane_point ax split x)))\<^sup>2))
      \<le> fl (fl ((fl (fst x - fst p))\<^sup>2) + fl ((fl (snd x - snd p))\<^sup>2))"
    using sum by (rule monoD [OF m])
  then have "sqrt (fl (fl ((fl (fst x - fst (plane_point ax split x)))\<^sup>2) +
        fl ((fl (snd x - snd (plane_point ax split x)))\<^sup>2)))
      \<le> sqrt (fl (fl ((fl (fst x - fst p))\<^sup>2) + fl ((fl (snd x - snd p))\<^sup>2)))"
    by simp
  then show ?thesis unfolding euclid_def by (rule monoD [OF m])
qed

lemma is_best_far:
  assumes b: "is_best fl data x S best" and np: "\<not> may_improve bound best"
    and far: "\<forall>i\<in>F. bound \<le> euclid fl x (data ! i)"
  shows "is_best fl data x (S \<union> F) best"
proof (cases best)
  case None
  with np show ?thesis by simp
next
  case (Some c)
  with np have "fst c \<le> bound" by simp
  with far have "\<forall>i\<in>F. fst c \<le> euclid fl x (data ! i)" by force
  with b Some show ?thesis by (auto simp: is_best_def)
qed

lemma is_best_nearest:
  assumes m: "mono fl" and z: "fl 0 = 0"
  shows "kd_inv data t \<Longrightarrow> is_best fl data x S best \<Longrightarrow>
    is_best fl data x (S \<union> indices t) (nearest fl data x t best)"
proof (induction t arbitrary: S best)
  case (Leaf idx)
  then show ?case by (simp add: is_best_scan)
next
  case (Node ax split l r)
  let ?bound = "euclid fl x (plane_point ax split x)"
  from Node.prems(1) have il: "\<forall>i\<in>indices l. coord ax (data ! i) < split"
    and ir: "\<forall>i\<in>indices r. \<not> coord ax (data ! i) < split"
    and kl: "kd_inv data l" and kr: "kd_inv data r"
    by simp_all
  show ?case
  proof (cases "coord ax x < split")
    case True
    let ?b1 = "nearest fl data x l best"
    have b1: "is_best fl data x (S \<union> indices l) ?b1" by (rule Node.IH(1) [OF kl Node.prems(2)])
    show ?thesis
    proof (cases "may_improve ?bound ?b1")
      case imp: True
      from Node.IH(2) [OF kr b1] True imp show ?thesis by (simp add: Un_assoc)
    next
      case False
      have "\<forall>i\<in>indices r. ?bound \<le> euclid fl x (data ! i)"
        using plane_bound [OF m z, of ax x split] True ir by blast
      from is_best_far [OF b1 False this] True False show ?thesis by (simp add: Un_assoc)
    qed
  next
    case right: False
    let ?b1 = "nearest fl data x r best"
    have b1: "is_best fl data x (S \<union> indices r) ?b1" by (rule Node.IH(2) [OF kr Node.prems(2)])
    show ?thesis
    proof (cases "may_improve ?bound ?b1")
      case imp: True
      have eq: "S \<union> indices r \<union> indices l = S \<union> (indices l \<union> indices r)" by auto
      from Node.IH(1) [OF kl b1] right imp show ?thesis by (simp add: eq)
    next
      case False
      have far: "\<forall>i\<in>indices l. ?bound \<le> euclid fl x (data ! i)"
        using plane_bound [OF m z, of ax x split] right il by blast
      have eq: "S \<union> indices r \<union> indices l = S \<union> (indices l \<union> indices r)" by auto
      from is_best_far [OF b1 False far] right False show ?thesis
        by (simp add: eq)
    qed
  qed
qed

lemma build_props: "indices (build fl data idx) = set idx \<and> kd_inv data (build fl data idx)"
proof (induction fl data idx rule: build.induct)
  case (1 fl data idx)
  show ?case
  proof (cases "length idx \<le> 16")
    case True
    then show ?thesis by (subst (1 2) build.simps) simp
  next
    case False
    define ax where "ax = (spread fl (map (\<lambda>i. fst (data ! i)) idx)
      < spread fl (map (\<lambda>i. snd (data ! i)) idx))"
    define cs where "cs = map (\<lambda>i. coord ax (data ! i)) idx"
    define split where "split = fl (fl (Max (set cs) + Min (set cs)) / 2)"
    define l where "l = filter (\<lambda>i. coord ax (data ! i) < split) idx"
    define r where "r = filter (\<lambda>i. \<not> coord ax (data ! i) < split) idx"
    have b: "build fl data idx =
        (if l = [] \<or> r = [] then Leaf idx else Node ax split (build fl data l) (build fl data r))"
      using False by (subst build.simps) (simp add: Let_def ax_def cs_def split_def l_def r_def)
    show ?thesis
    proof (cases "l = [] \<or> r = []")
      case True
      with b show ?thesis by simp
    next
      case ne: False
      from "1.IH"(1) [OF False ax_def cs_def split_def l_def r_def ne]
      have L: "indices (build fl data l) = set l" "kd_inv data (build fl data l)" by simp_all
      from "1.IH"(2) [OF False ax_def cs_def split_def l_def r_def ne]
      have R: "indices (build fl data r) = set r" "kd_inv data (build fl data r)" by simp_all
      have "set l \<union> set r = set idx" by (auto simp: l_def r_def)
      with ne b L R show ?thesis by (auto simp: l_def r_def)
    qed
  qed
qed

lemma build_small: "length idx \<le> 16 \<Longrightarrow> build fl data idx = Leaf idx"
  by (subst build.simps) simp

lemma query1_best:
  assumes m: "mono fl" and z: "fl 0 = 0"
  shows "is_best fl data x {0..<length data}
    (nearest fl data x (build fl data [0..<length data]) None)"
proof -
  have "is_best fl data x {} None" by (simp add: is_best_def)
  from is_best_nearest [OF m z _ this, of "build fl data [0..<length data]"]
  show ?thesis by (simp add: build_props)
qed

lemma query1_props:
  assumes m: "mono fl" and z: "fl 0 = 0"
    and q: "query1 fl (data, build fl data [0..<length data]) x = Inr (d, j)"
  shows "data \<noteq> []" "d = Min (euclid fl x ` set data)" "j < length data"
    "euclid fl x (data ! j) = d"
proof -
  from q have n: "nearest fl data x (build fl data [0..<length data]) None = Some (d, j)"
    by (simp add: query1_def split: option.splits)
  from query1_best [OF m z, of data x] have
    j: "j < length data" and dj: "euclid fl x (data ! j) = d" and
    le: "\<forall>i<length data. d \<le> euclid fl x (data ! i)"
    by (simp_all add: n is_best_def)
  show "j < length data" by (rule j)
  show "euclid fl x (data ! j) = d" by (rule dj)
  show "data \<noteq> []" using j by auto
  have "Min (euclid fl x ` set data) = d"
  proof (rule Min_eqI)
    show "finite (euclid fl x ` set data)" by simp
    show "\<And>y. y \<in> euclid fl x ` set data \<Longrightarrow> d \<le> y"
      using le by (metis imageE in_set_conv_nth)
    show "d \<in> euclid fl x ` set data" using j dj by (metis imageI nth_mem)
  qed
  then show "d = Min (euclid fl x ` set data)" by simp
qed

lemma query1_total:
  assumes m: "mono fl" and z: "fl 0 = 0" and ne: "data \<noteq> []"
  shows "\<exists>b. query1 fl (data, build fl data [0..<length data]) x = Inr b"
proof (cases "nearest fl data x (build fl data [0..<length data]) None")
  case None
  with query1_best [OF m z, of data x] ne show ?thesis by (simp add: is_best_def)
next
  case (Some b)
  then show ?thesis by (simp add: query1_def)
qed

lemma traverse_nth_e:
  "traverse_e (nth_e xs) js = Inr ys \<Longrightarrow> ys = map ((!) xs) js"
  by (induction js arbitrary: ys) (auto simp: bind_e_Inr_iff nth_e_def split: if_splits)

lemma traverse_e_length: "traverse_e f xs = Inr ys \<Longrightarrow> length ys = length xs"
  by (simp add: traverse_e_Inr_iff list_all2_lengthD)

lemma traverse_e_map:
  "traverse_e f xs = Inr ys \<Longrightarrow> (\<And>x y. f x = Inr y \<Longrightarrow> y = g x) \<Longrightarrow> ys = map g xs"
  by (induction xs arbitrary: ys) (auto simp: bind_e_Inr_iff)

lemma traverse_e_map_ok:
  "\<forall>r\<in>set rs. \<not> isl (f (g r)) \<Longrightarrow>
     traverse_e f (map g rs) = Inr (map (\<lambda>r. case f (g r) of Inr y \<Rightarrow> y | Inl e \<Rightarrow> d) rs)"
proof (induction rs)
  case Nil
  show ?case by simp
next
  case (Cons r rs)
  then obtain y where "f (g r) = Inr y" by (cases "f (g r)") auto
  with Cons show ?case by simp
qed

lemma traverse_e_ok: "traverse_e f xs = Inr ys \<Longrightarrow> \<forall>x\<in>set xs. \<not> isl (f x)"
  by (induction xs arbitrary: ys) (auto simp: bind_e_Inr_iff)

lemma map2_same: "map2 f (map g rs) (map h rs) = map (\<lambda>r. f (g r) (h r)) rs"
  by (induction rs) simp_all

lemma map2_same_l: "map2 f rs (map h rs) = map (\<lambda>r. f r (h r)) rs"
  by (induction rs) simp_all

section \<open>The nearest-port annotator\<close>

lemma traverse_nth_e_range:
  "traverse_e (nth_e xs) js = Inr ys \<Longrightarrow> \<forall>j\<in>set js. j < length xs"
  by (induction js arbitrary: ys) (auto simp: bind_e_Inr_iff nth_e_def split: if_splits)

lemma traverse_nth_e_total:
  "\<forall>j\<in>set js. j < length xs \<Longrightarrow> traverse_e (nth_e xs) js = Inr (map ((!) xs) js)"
  by (induction js) (simp_all add: nth_e_def)

lemma create_proximity_columns_props:
  assumes run: "create_proximity_columns fl s a p = Inr (s', r)" and wf: "wf_frame (s a)"
  shows "\<exists>vc pc names tree nn.
    coords (s a) ''latitude'' ''longitude'' = Inr vc \<and>
    coords (s p) ''Latitude'' ''Longitude'' = Inr pc \<and>
    getitem (s p) ''Main Port Name'' = Inr names \<and>
    cKDTree fl pc = Inr tree \<and> query fl tree vc = Inr nn \<and>
    (\<forall>x\<in>set nn. snd x < length names \<and> snd x < length pc) \<and>
    r = a \<and> (\<forall>b. b \<noteq> a \<longrightarrow> s' b = s b) \<and> wf_frame (s' a) \<and>
    length (rows (s' a)) = length (rows (s a)) \<and>
    set (cols (s' a)) = set (cols (s a)) \<union> set proximity_columns \<and>
    (\<forall>c\<in>set (cols (s a)). c \<notin> set proximity_columns \<longrightarrow> column (s' a) c = column (s a) c) \<and>
    column (s' a) ''Distance to Nearest Port'' = map (\<lambda>x. Num (fst x)) nn \<and>
    column (s' a) ''Less than 1 km from port'' = map (\<lambda>x. yes_no (fst x \<le> 1)) nn \<and>
    column (s' a) ''Less than 3 km from port'' = map (\<lambda>x. yes_no (fst x \<le> 3)) nn \<and>
    column (s' a) ''Less than 5 km from port'' = map (\<lambda>x. yes_no (fst x \<le> 5)) nn \<and>
    column (s' a) ''Less than 10 km from port'' = map (\<lambda>x. yes_no (fst x \<le> 10)) nn \<and>
    column (s' a) ''Proximity Port Name'' =
      map2 (\<lambda>m v. if m then Str ''No'' else v) (far_mask (s' a)) (map (\<lambda>x. names ! snd x) nn) \<and>
    column (s' a) ''Port Latitude'' =
      map2 (\<lambda>m v. if m then NaN else v) (far_mask (s' a)) (map (\<lambda>x. fst (pc ! snd x)) nn) \<and>
    column (s' a) ''Port Longitude'' =
      map2 (\<lambda>m v. if m then NaN else v) (far_mask (s' a)) (map (\<lambda>x. snd (pc ! snd x)) nn)"
proof -
  from run obtain vc pc names tree nn s1 nm s2 pcs s3 s4 s5 f1 f3 f5 f10 s6 where
    vc: "coords (s a) ''latitude'' ''longitude'' = Inr vc" and
    pc: "coords (s p) ''Latitude'' ''Longitude'' = Inr pc" and
    names: "getitem (s p) ''Main Port Name'' = Inr names" and
    tree: "cKDTree fl pc = Inr tree" and
    nn: "query fl tree vc = Inr nn" and
    s1: "store_setitem s a ''Distance to Nearest Port'' (map Num (map fst nn)) = Inr s1" and
    nm: "traverse_e (nth_e names) (map snd nn) = Inr nm" and
    s2: "store_setitem s1 a ''Proximity Port Name'' nm = Inr s2" and
    pcs: "traverse_e (nth_e pc) (map snd nn) = Inr pcs" and
    s3: "store_setitem s2 a ''Port Latitude'' (map fst pcs) = Inr s3" and
    s4: "store_setitem s3 a ''Port Longitude'' (map snd pcs) = Inr s4" and
    s5: "threshold_loop s4 a [(1, ''1 km''), (3, ''3 km''), (5, ''5 km''), (10, ''10 km'')] = Inr s5" and
    f1: "getitem (s5 a) ''Less than 1 km from port'' = Inr f1" and
    f3: "getitem (s5 a) ''Less than 3 km from port'' = Inr f3" and
    f5: "getitem (s5 a) ''Less than 5 km from port'' = Inr f5" and
    f10: "getitem (s5 a) ''Less than 10 km from port'' = Inr f10" and
    s6: "store_loc_setitem s5 a
           (and_mask (and_mask (and_mask (eq_mask f1 (Str ''No'')) (eq_mask f3 (Str ''No'')))
              (eq_mask f5 (Str ''No''))) (eq_mask f10 (Str ''No'')))
           [(''Proximity Port Name'', Str ''No''), (''Port Latitude'', NaN),
            (''Port Longitude'', NaN)] = Inr s6" and
    fin: "s' = s6" "r = a"
    unfolding create_proximity_columns_def Let_def bind_e_Inr_iff by auto
  note P1 = store_setitem_props [OF wf s1]
  note P2 = store_setitem_props [OF P1(2) s2]
  note P3 = store_setitem_props [OF P2(2) s3]
  note P4 = store_setitem_props [OF P3(2) s4]
  have dl: "distinct (map snd [(1::real, ''1 km''), (3, ''3 km''), (5, ''5 km''), (10, ''10 km'')])"
    by simp
  note P5 = threshold_loop_props [OF s5 P4(2) dl]
  have dc: "distinct (map fst [(''Proximity Port Name'', Str ''No''), (''Port Latitude'', NaN),
            (''Port Longitude'', NaN)])" by simp
  from P5 have wf5: "wf_frame (s5 a)" by simp
  note P6 = store_loc_setitem_props [OF s6 wf5 dc]
  let ?D = "''Distance to Nearest Port''"
  have cols4: "set (cols (s4 a)) = set (cols (s a)) \<union>
      {?D, ''Proximity Port Name'', ''Port Latitude'', ''Port Longitude''}"
    using P1(4) P2(4) P3(4) P4(4) by auto
  have cols5: "set (cols (s5 a)) = set (cols (s a)) \<union> set proximity_columns"
    using P5 cols4 by (auto simp: proximity_columns_def flag_label_def)
  have cols6: "set (cols (s6 a)) = set (cols (s a)) \<union> set proximity_columns"
    using P6 cols5 by simp
  have rng: "\<forall>x\<in>set nn. snd x < length names \<and> snd x < length pc"
    using traverse_nth_e_range [OF nm] traverse_nth_e_range [OF pcs] by simp
  have nmv: "nm = map (\<lambda>x. names ! snd x) nn"
    using traverse_nth_e [OF nm] by (simp add: comp_def)
  have pcv: "pcs = map (\<lambda>x. pc ! snd x) nn"
    using traverse_nth_e [OF pcs] by (simp add: comp_def)
  have D4: "column (s4 a) ?D = map (\<lambda>x. Num (fst x)) nn"
    using P1(5) [of ?D] P2(5) [of ?D] P3(5) [of ?D] P4(5) [of ?D] P1(4) P2(4) P3(4)
    by (simp add: comp_def)
  have N4: "column (s4 a) ''Proximity Port Name'' = map (\<lambda>x. names ! snd x) nn"
    using P2(5) [of "''Proximity Port Name''"] P3(5) [of "''Proximity Port Name''"]
      P4(5) [of "''Proximity Port Name''"] P2(4) P3(4) nmv
    by simp
  have A4: "column (s4 a) ''Port Latitude'' = map (\<lambda>x. fst (pc ! snd x)) nn"
    using P3(5) [of "''Port Latitude''"] P4(5) [of "''Port Latitude''"] P3(4) pcv
    by (simp add: comp_def)
  have O4: "column (s4 a) ''Port Longitude'' = map (\<lambda>x. snd (pc ! snd x)) nn"
    using P4(5) [of "''Port Longitude''"] pcv
    by (simp add: comp_def)
  have keep5: "\<And>c. c \<in> set (cols (s4 a)) \<Longrightarrow> c \<notin> set (drop 4 proximity_columns) \<Longrightarrow>
      column (s5 a) c = column (s4 a) c"
    using P5 by (auto simp: proximity_columns_def flag_label_def)
  have flag5: "\<And>d l. (d, l) \<in> set [(1::real, ''1 km''), (3, ''3 km''), (5, ''5 km''), (10, ''10 km'')] \<Longrightarrow>
      column (s5 a) (flag_label l) = map (\<lambda>x. yes_no (fst x \<le> d)) nn"
    using P5 D4 by (auto simp: comp_def)
  have keep6: "\<And>c. c \<in> set (cols (s5 a)) \<Longrightarrow>
      c \<notin> {''Proximity Port Name'', ''Port Latitude'', ''Port Longitude''} \<Longrightarrow>
      column (s6 a) c = column (s5 a) c"
    using P6 by auto
  have F1: "column (s6 a) ''Less than 1 km from port'' = map (\<lambda>x. yes_no (fst x \<le> 1)) nn"
    using flag5 [of 1 "''1 km''"] keep6 [of "''Less than 1 km from port''"] cols5
    by (simp add: flag_label_def proximity_columns_def)
  have F3: "column (s6 a) ''Less than 3 km from port'' = map (\<lambda>x. yes_no (fst x \<le> 3)) nn"
    using flag5 [of 3 "''3 km''"] keep6 [of "''Less than 3 km from port''"] cols5
    by (simp add: flag_label_def proximity_columns_def)
  have F5: "column (s6 a) ''Less than 5 km from port'' = map (\<lambda>x. yes_no (fst x \<le> 5)) nn"
    using flag5 [of 5 "''5 km''"] keep6 [of "''Less than 5 km from port''"] cols5
    by (simp add: flag_label_def proximity_columns_def)
  have F10: "column (s6 a) ''Less than 10 km from port'' = map (\<lambda>x. yes_no (fst x \<le> 10)) nn"
    using flag5 [of 10 "''10 km''"] keep6 [of "''Less than 10 km from port''"] cols5
    by (simp add: flag_label_def proximity_columns_def)
  have same_flags: "column (s6 a) ''Less than 1 km from port'' = f1"
    "column (s6 a) ''Less than 3 km from port'' = f3"
    "column (s6 a) ''Less than 5 km from port'' = f5"
    "column (s6 a) ''Less than 10 km from port'' = f10"
    using f1 f3 f5 f10 keep6 by (simp_all add: getitem_Inr_iff)
  have mask: "and_mask (and_mask (and_mask (eq_mask f1 (Str ''No'')) (eq_mask f3 (Str ''No'')))
              (eq_mask f5 (Str ''No''))) (eq_mask f10 (Str ''No'')) = far_mask (s6 a)"
    by (simp add: far_mask_def same_flags)
  have D6: "column (s6 a) ?D = map (\<lambda>x. Num (fst x)) nn"
    using keep6 [of ?D] keep5 [of ?D] D4 cols5 cols4 by (simp add: proximity_columns_def)
  have N6: "column (s6 a) ''Proximity Port Name'' =
      map2 (\<lambda>m v. if m then Str ''No'' else v) (far_mask (s6 a)) (map (\<lambda>x. names ! snd x) nn)"
    using P6 keep5 [of "''Proximity Port Name''"] N4 cols4 mask
    by (simp add: proximity_columns_def)
  have A6: "column (s6 a) ''Port Latitude'' =
      map2 (\<lambda>m v. if m then NaN else v) (far_mask (s6 a)) (map (\<lambda>x. fst (pc ! snd x)) nn)"
    using P6 keep5 [of "''Port Latitude''"] A4 cols4 mask
    by (simp add: proximity_columns_def)
  have O6: "column (s6 a) ''Port Longitude'' =
      map2 (\<lambda>m v. if m then NaN else v) (far_mask (s6 a)) (map (\<lambda>x. snd (pc ! snd x)) nn)"
    using P6 keep5 [of "''Port Longitude''"] O4 cols4 mask
    by (simp add: proximity_columns_def)
  have other: "\<forall>b. b \<noteq> a \<longrightarrow> s6 b = s b"
    using P1(1) P2(1) P3(1) P4(1) P5 P6 by simp
  have len: "length (rows (s6 a)) = length (rows (s a))"
    using P1(3) P2(3) P3(3) P4(3) P5 P6 by simp
  have keep: "\<forall>c\<in>set (cols (s a)). c \<notin> set proximity_columns \<longrightarrow> column (s6 a) c = column (s a) c"
  proof (intro ballI impI)
    fix c assume c: "c \<in> set (cols (s a))" and n: "c \<notin> set proximity_columns"
    have "column (s6 a) c = column (s5 a) c"
      using keep6 [of c] c n cols5 by (simp add: proximity_columns_def)
    also have "\<dots> = column (s4 a) c"
      using keep5 [of c] c n cols4 by (simp add: proximity_columns_def)
    also have "\<dots> = column (s a) c"
      using P1(5) [of c] P2(5) [of c] P3(5) [of c] P4(5) [of c] P1(4) P2(4) P3(4) c n
      by (simp add: proximity_columns_def)
    finally show "column (s6 a) c = column (s a) c" .
  qed
  from P6 have wf6: "wf_frame (s6 a)" by simp
  show ?thesis
    unfolding fin
    using vc pc names tree nn rng other wf6 len cols6 keep D6 F1 F3 F5 F10 N6 A6 O6
    by blast
qed

lemma column_nth: "i < length (rows df) \<Longrightarrow> column df c ! i = cell df i c"
  by (simp add: column_def cell_def)

lemma coords_Inr:
  assumes "coords df a b = Inr vc"
  shows "a \<in> set (cols df)" "b \<in> set (cols df)"
    "vc = map (\<lambda>r. (lookup (cols df) r a, lookup (cols df) r b)) (rows df)"
  using assms
  by (auto simp: coords_def bind_e_Inr_iff getitem_def zip_map_map zip_same_conv_map
      split: if_splits)

lemma point_of_Inr: "point_of v = Inr q \<Longrightarrow> v = (Num (fst q), Num (snd q))"
  by (induction v rule: point_of.induct) auto

lemma far_mask_nth:
  assumes "i < length (rows df)"
  shows "far_mask df ! i = all_flags_no df i"
  using assms
  by (simp add: far_mask_def all_flags_no_def and_mask_def eq_mask_def column_nth)

lemma length_far_mask: "length (far_mask df) = length (rows df)"
  by (simp add: far_mask_def and_mask_def eq_mask_def)

lemma points_of_rows:
  "list_all2 (\<lambda>v q. point_of v = Inr q)
      (map (\<lambda>r. (lookup cs r a, lookup cs r b)) rs) pts \<Longrightarrow>
   pts = concat (map (\<lambda>r. case (lookup cs r a, lookup cs r b) of
                          (Num x, Num y) \<Rightarrow> [(x, y)] | _ \<Rightarrow> []) rs)"
proof (induction rs arbitrary: pts)
  case Nil
  then show ?case by simp
next
  case (Cons r rs)
  then obtain q qs where t: "pts = q # qs"
    and q: "point_of (lookup cs r a, lookup cs r b) = Inr q"
    and qs: "list_all2 (\<lambda>v q. point_of v = Inr q)
      (map (\<lambda>r. (lookup cs r a, lookup cs r b)) rs) qs"
    by (auto simp: list_all2_Cons1)
  from point_of_Inr [OF q] Cons.IH [OF qs] show ?case by (simp add: t)
qed

lemma cKDTree_port_points:
  assumes "coords pf ''Latitude'' ''Longitude'' = Inr pc" "cKDTree fl pc = Inr tree"
  shows "tree = (port_points pf, build fl (port_points pf) [0..<length (port_points pf)])"
    "length (port_points pf) = length (rows pf)"
    "\<And>j. j < length (rows pf) \<Longrightarrow>
       pc ! j = (Num (fst (port_points pf ! j)), Num (snd (port_points pf ! j)))"
proof -
  from assms(2) obtain pts where la: "list_all2 (\<lambda>v q. point_of v = Inr q) pc pts"
    and tree: "tree = (pts, build fl pts [0..<length pts])"
    by (auto simp: cKDTree_def bind_e_Inr_iff traverse_e_Inr_iff)
  have pc: "pc = map (\<lambda>r. (lookup (cols pf) r ''Latitude'', lookup (cols pf) r ''Longitude'')) (rows pf)"
    by (rule coords_Inr(3) [OF assms(1)])
  have pts: "pts = port_points pf"
    using points_of_rows [OF la [unfolded pc]] by (simp add: port_points_def)
  show "tree = (port_points pf, build fl (port_points pf) [0..<length (port_points pf)])"
    using tree pts by simp
  from la have len: "length pts = length (rows pf)" by (simp add: pc list_all2_lengthD [symmetric])
  then show "length (port_points pf) = length (rows pf)" by (simp add: pts)
  fix j assume "j < length (rows pf)"
  with la len have "point_of (pc ! j) = Inr (pts ! j)"
    by (simp add: list_all2_conv_all_nth)
  from point_of_Inr [OF this]
  show "pc ! j = (Num (fst (port_points pf ! j)), Num (snd (port_points pf ! j)))"
    by (simp add: pts)
qed

lemma query_Inr:
  assumes "query fl tree vc = Inr nn" "i < length vc"
  shows "length nn = length vc"
    "\<exists>q. vc ! i = (Num (fst q), Num (snd q)) \<and> query1 fl tree q = Inr (nn ! i)"
proof -
  from assms(1) obtain ps where ps: "list_all2 (\<lambda>v q. point_of v = Inr q) vc ps"
    and nn: "list_all2 (\<lambda>q n. query1 fl tree q = Inr n) ps nn"
    by (auto simp: query_def bind_e_Inr_iff traverse_e_Inr_iff)
  show "length nn = length vc" using ps nn by (simp add: list_all2_lengthD [symmetric])
  from ps assms(2) have "point_of (vc ! i) = Inr (ps ! i)" by (simp add: list_all2_conv_all_nth)
  from point_of_Inr [OF this] have "vc ! i = (Num (fst (ps ! i)), Num (snd (ps ! i)))" .
  moreover from nn ps assms(2) have "query1 fl tree (ps ! i) = Inr (nn ! i)"
    by (simp add: list_all2_conv_all_nth)
  ultimately show "\<exists>q. vc ! i = (Num (fst q), Num (snd q)) \<and> query1 fl tree q = Inr (nn ! i)"
    by blast
qed

text \<open>
  What a run that returns leaves in the row of a record: the answer \<open>(d, j)\<close> of the
  query for the record, the flags of \<open>d\<close>, and the name and the coordinates of row \<open>j\<close>
  of the port table, or the sentinel.
\<close>

lemma record_cells:
  assumes run: "create_proximity_columns fl s a p = Inr (s', r)" and wf: "wf_frame (s a)"
    and i: "i < length (rows (s a))"
  shows "\<exists>la lo d j.
    cell (s a) i ''latitude'' = Num la \<and> cell (s a) i ''longitude'' = Num lo \<and>
    query1 fl (port_points (s p), build fl (port_points (s p)) [0..<length (port_points (s p))])
      (la, lo) = Inr (d, j) \<and>
    j < length (rows (s p)) \<and> length (port_points (s p)) = length (rows (s p)) \<and>
    cell (s p) j ''Latitude'' = Num (fst (port_points (s p) ! j)) \<and>
    cell (s p) j ''Longitude'' = Num (snd (port_points (s p) ! j)) \<and>
    cell (s' r) i ''Distance to Nearest Port'' = Num d \<and>
    cell (s' r) i ''Less than 1 km from port'' = yes_no (d \<le> 1) \<and>
    cell (s' r) i ''Less than 3 km from port'' = yes_no (d \<le> 3) \<and>
    cell (s' r) i ''Less than 5 km from port'' = yes_no (d \<le> 5) \<and>
    cell (s' r) i ''Less than 10 km from port'' = yes_no (d \<le> 10) \<and>
    cell (s' r) i ''Proximity Port Name'' =
      (if all_flags_no (s' r) i then Str ''No'' else cell (s p) j ''Main Port Name'') \<and>
    cell (s' r) i ''Port Latitude'' =
      (if all_flags_no (s' r) i then NaN else cell (s p) j ''Latitude'') \<and>
    cell (s' r) i ''Port Longitude'' =
      (if all_flags_no (s' r) i then NaN else cell (s p) j ''Longitude'')"
proof -
  from create_proximity_columns_props [OF run wf] obtain vc pc names tree nn where
    vc: "coords (s a) ''latitude'' ''longitude'' = Inr vc" and
    pc: "coords (s p) ''Latitude'' ''Longitude'' = Inr pc" and
    names: "getitem (s p) ''Main Port Name'' = Inr names" and
    tree: "cKDTree fl pc = Inr tree" and nn: "query fl tree vc = Inr nn" and
    rng: "\<forall>x\<in>set nn. snd x < length names \<and> snd x < length pc" and
    r: "r = a" and len: "length (rows (s' a)) = length (rows (s a))" and
    D: "column (s' a) ''Distance to Nearest Port'' = map (\<lambda>x. Num (fst x)) nn" and
    F1: "column (s' a) ''Less than 1 km from port'' = map (\<lambda>x. yes_no (fst x \<le> 1)) nn" and
    F3: "column (s' a) ''Less than 3 km from port'' = map (\<lambda>x. yes_no (fst x \<le> 3)) nn" and
    F5: "column (s' a) ''Less than 5 km from port'' = map (\<lambda>x. yes_no (fst x \<le> 5)) nn" and
    F10: "column (s' a) ''Less than 10 km from port'' = map (\<lambda>x. yes_no (fst x \<le> 10)) nn" and
    N: "column (s' a) ''Proximity Port Name'' =
      map2 (\<lambda>m v. if m then Str ''No'' else v) (far_mask (s' a)) (map (\<lambda>x. names ! snd x) nn)" and
    A: "column (s' a) ''Port Latitude'' =
      map2 (\<lambda>m v. if m then NaN else v) (far_mask (s' a)) (map (\<lambda>x. fst (pc ! snd x)) nn)" and
    O: "column (s' a) ''Port Longitude'' =
      map2 (\<lambda>m v. if m then NaN else v) (far_mask (s' a)) (map (\<lambda>x. snd (pc ! snd x)) nn)"
    by blast
  have vcv: "vc = map (\<lambda>r. (lookup (cols (s a)) r ''latitude'', lookup (cols (s a)) r ''longitude''))
      (rows (s a))"
    by (rule coords_Inr(3) [OF vc])
  then have ivc: "i < length vc" using i by simp
  note T = cKDTree_port_points [OF pc tree]
  from query_Inr [OF nn ivc] obtain q where lnn: "length nn = length vc"
    and q: "vc ! i = (Num (fst q), Num (snd q))" and q1: "query1 fl tree q = Inr (nn ! i)"
    by blast
  obtain d j where dj: "nn ! i = (d, j)" by (cases "nn ! i")
  have inn: "i < length nn" using lnn ivc by simp
  have i': "i < length (rows (s' a))" using len i by simp
  have la: "cell (s a) i ''latitude'' = Num (fst q)" and lo: "cell (s a) i ''longitude'' = Num (snd q)"
    using q i by (simp_all add: vcv cell_def)
  have pcv: "pc = map (\<lambda>r. (lookup (cols (s p)) r ''Latitude'', lookup (cols (s p)) r ''Longitude''))
      (rows (s p))"
    by (rule coords_Inr(3) [OF pc])
  have "nn ! i \<in> set nn" using inn by simp
  with rng dj have "j < length pc" by force
  then have jr: "j < length (rows (s p))" by (simp add: pcv)
  note pcj = T(3) [OF jr]
  have plat: "cell (s p) j ''Latitude'' = fst (pc ! j)" and plon: "cell (s p) j ''Longitude'' = snd (pc ! j)"
    using jr by (simp_all add: pcv cell_def)
  have nmj: "names ! j = cell (s p) j ''Main Port Name''"
    using names jr by (simp add: getitem_Inr_iff column_nth)
  have fm: "far_mask (s' a) ! i = all_flags_no (s' a) i" by (rule far_mask_nth [OF i'])
  have lfm: "i < length (far_mask (s' a))" using i' by (simp add: length_far_mask)
  have cD: "cell (s' a) i ''Distance to Nearest Port'' = Num d"
    using arg_cong [OF D, of "\<lambda>xs. xs ! i"] inn i' dj by (simp add: column_nth)
  have cF1: "cell (s' a) i ''Less than 1 km from port'' = yes_no (d \<le> 1)"
    using arg_cong [OF F1, of "\<lambda>xs. xs ! i"] inn i' dj by (simp add: column_nth)
  have cF3: "cell (s' a) i ''Less than 3 km from port'' = yes_no (d \<le> 3)"
    using arg_cong [OF F3, of "\<lambda>xs. xs ! i"] inn i' dj by (simp add: column_nth)
  have cF5: "cell (s' a) i ''Less than 5 km from port'' = yes_no (d \<le> 5)"
    using arg_cong [OF F5, of "\<lambda>xs. xs ! i"] inn i' dj by (simp add: column_nth)
  have cF10: "cell (s' a) i ''Less than 10 km from port'' = yes_no (d \<le> 10)"
    using arg_cong [OF F10, of "\<lambda>xs. xs ! i"] inn i' dj by (simp add: column_nth)
  have cN: "cell (s' a) i ''Proximity Port Name'' =
      (if all_flags_no (s' a) i then Str ''No'' else cell (s p) j ''Main Port Name'')"
    using arg_cong [OF N, of "\<lambda>xs. xs ! i"] inn i' lfm dj fm nmj by (simp add: column_nth)
  have cA: "cell (s' a) i ''Port Latitude'' =
      (if all_flags_no (s' a) i then NaN else cell (s p) j ''Latitude'')"
    using arg_cong [OF A, of "\<lambda>xs. xs ! i"] inn i' lfm dj fm plat by (simp add: column_nth)
  have cO: "cell (s' a) i ''Port Longitude'' =
      (if all_flags_no (s' a) i then NaN else cell (s p) j ''Longitude'')"
    using arg_cong [OF O, of "\<lambda>xs. xs ! i"] inn i' lfm dj fm plon by (simp add: column_nth)
  have q1': "query1 fl (port_points (s p),
      build fl (port_points (s p)) [0..<length (port_points (s p))]) (fst q, snd q) = Inr (d, j)"
    using q1 dj T(1) by simp
  have "cell (s p) j ''Latitude'' = Num (fst (port_points (s p) ! j))"
    "cell (s p) j ''Longitude'' = Num (snd (port_points (s p) ! j))"
    using plat plon pcj by simp_all
  then show ?thesis
    unfolding r using la lo q1' jr T(2) cD cF1 cF3 cF5 cF10 cN cA cO by blast
qed

lemma record_annotation:
  assumes m: "mono fl" and z: "fl 0 = 0"
    and run: "create_proximity_columns fl s a p = Inr (s', r)" and wf: "wf_frame (s a)"
    and i: "i < length (rows (s a))"
  shows "\<exists>la lo d j.
    cell (s a) i ''latitude'' = Num la \<and> cell (s a) i ''longitude'' = Num lo \<and>
    port_points (s p) \<noteq> [] \<and> d = Min (euclid fl (la, lo) ` set (port_points (s p))) \<and>
    j < length (rows (s p)) \<and> length (port_points (s p)) = length (rows (s p)) \<and>
    euclid fl (la, lo) (port_points (s p) ! j) = d \<and>
    cell (s p) j ''Latitude'' = Num (fst (port_points (s p) ! j)) \<and>
    cell (s p) j ''Longitude'' = Num (snd (port_points (s p) ! j)) \<and>
    cell (s' r) i ''Distance to Nearest Port'' = Num d \<and>
    cell (s' r) i ''Less than 1 km from port'' = yes_no (d \<le> 1) \<and>
    cell (s' r) i ''Less than 3 km from port'' = yes_no (d \<le> 3) \<and>
    cell (s' r) i ''Less than 5 km from port'' = yes_no (d \<le> 5) \<and>
    cell (s' r) i ''Less than 10 km from port'' = yes_no (d \<le> 10) \<and>
    cell (s' r) i ''Proximity Port Name'' =
      (if all_flags_no (s' r) i then Str ''No'' else cell (s p) j ''Main Port Name'') \<and>
    cell (s' r) i ''Port Latitude'' =
      (if all_flags_no (s' r) i then NaN else cell (s p) j ''Latitude'') \<and>
    cell (s' r) i ''Port Longitude'' =
      (if all_flags_no (s' r) i then NaN else cell (s p) j ''Longitude'')"
proof -
  from record_cells [OF run wf i] obtain la lo d j where
    A: "cell (s a) i ''latitude'' = Num la" "cell (s a) i ''longitude'' = Num lo"
      "j < length (rows (s p))" "length (port_points (s p)) = length (rows (s p))"
      "cell (s p) j ''Latitude'' = Num (fst (port_points (s p) ! j))"
      "cell (s p) j ''Longitude'' = Num (snd (port_points (s p) ! j))"
      "cell (s' r) i ''Distance to Nearest Port'' = Num d"
      "cell (s' r) i ''Less than 1 km from port'' = yes_no (d \<le> 1)"
      "cell (s' r) i ''Less than 3 km from port'' = yes_no (d \<le> 3)"
      "cell (s' r) i ''Less than 5 km from port'' = yes_no (d \<le> 5)"
      "cell (s' r) i ''Less than 10 km from port'' = yes_no (d \<le> 10)"
      "cell (s' r) i ''Proximity Port Name'' =
        (if all_flags_no (s' r) i then Str ''No'' else cell (s p) j ''Main Port Name'')"
      "cell (s' r) i ''Port Latitude'' =
        (if all_flags_no (s' r) i then NaN else cell (s p) j ''Latitude'')"
      "cell (s' r) i ''Port Longitude'' =
        (if all_flags_no (s' r) i then NaN else cell (s p) j ''Longitude'')"
    and q: "query1 fl (port_points (s p),
        build fl (port_points (s p)) [0..<length (port_points (s p))]) (la, lo) = Inr (d, j)"
    by blast
  note Q = query1_props [OF m z q]
  show ?thesis using A Q(1,2,4) by blast
qed

text \<open>The steps of the annotator that cannot raise, and the run as a whole.\<close>

lemma store_setitem_total:
  assumes "length vs = length (rows (s a))"
  shows "\<exists>s'. store_setitem s a c vs = Inr s' \<and> length (rows (s' a)) = length (rows (s a)) \<and>
    set (cols (s' a)) = insert c (set (cols (s a)))"
  using assms by (simp add: store_setitem_def setitem_def set_set_col)

lemma threshold_loop_total:
  "''Distance to Nearest Port'' \<in> set (cols (s a)) \<Longrightarrow>
   \<exists>s'. threshold_loop s a ts = Inr s' \<and> length (rows (s' a)) = length (rows (s a)) \<and>
     set (cols (s' a)) = set (cols (s a)) \<union> (\<lambda>t. ''Less than '' @ snd t @ '' from port'') ` set ts"
proof (induction ts arbitrary: s)
  case Nil
  show ?case by simp
next
  case (Cons t ts)
  obtain dst label where t: "t = (dst, label)" by (cases t)
  let ?vs = "map (\<lambda>d. yes_no (le_val d dst)) (column (s a) ''Distance to Nearest Port'')"
  have g: "getitem (s a) ''Distance to Nearest Port'' = Inr (column (s a) ''Distance to Nearest Port'')"
    using Cons.prems by (simp add: getitem_Inr_iff)
  have "length ?vs = length (rows (s a))" by simp
  from store_setitem_total [where s = s and a = a and c = "''Less than '' @ label @ '' from port''", OF this]
  obtain s1 where s1: "store_setitem s a (''Less than '' @ label @ '' from port'') ?vs = Inr s1"
    and l1: "length (rows (s1 a)) = length (rows (s a))"
    and c1: "set (cols (s1 a)) = insert (''Less than '' @ label @ '' from port'') (set (cols (s a)))"
    by blast
  have "''Distance to Nearest Port'' \<in> set (cols (s1 a))" using Cons.prems c1 by simp
  from Cons.IH [where s = s1, OF this] obtain s' where s': "threshold_loop s1 a ts = Inr s'"
    and l': "length (rows (s' a)) = length (rows (s1 a))"
    and c': "set (cols (s' a)) =
      set (cols (s1 a)) \<union> (\<lambda>t. ''Less than '' @ snd t @ '' from port'') ` set ts"
    by blast
  have "threshold_loop s a (t # ts) = Inr s'" using s1 s' by (simp add: t g)
  moreover have "length (rows (s' a)) = length (rows (s a))" using l' l1 by simp
  moreover have "set (cols (s' a)) =
      set (cols (s a)) \<union> (\<lambda>t. ''Less than '' @ snd t @ '' from port'') ` set (t # ts)"
    using c' c1 by (simp add: t)
  ultimately show ?case by blast
qed

lemma loc_setitem_total:
  "length sel = length (rows df) \<Longrightarrow> fst ` set cvs \<subseteq> set (cols df) \<Longrightarrow>
   \<exists>df'. loc_setitem df sel cvs = Inr df'"
proof (induction cvs arbitrary: df)
  case Nil
  show ?case by simp
next
  case (Cons cv cvs)
  obtain c v where cv: "cv = (c, v)" by (cases cv)
  have c: "c \<in> set (cols df)" using Cons.prems(2) by (simp add: cv)
  have g: "getitem df c = Inr (column df c)" using c by (simp add: getitem_Inr_iff)
  let ?vs = "map2 (\<lambda>m x. if m then v else x) sel (column df c)"
  have lv: "length ?vs = length (rows df)" using Cons.prems(1) by simp
  let ?df = "\<lparr>cols = set_col (cols df) c, rows = map2 (\<lambda>r v. set_cell (cols df) c v r) (rows df) ?vs\<rparr>"
  have si: "setitem df c ?vs = Inr ?df" using lv by (simp add: setitem_def)
  have "length sel = length (rows ?df)" using lv Cons.prems(1) by simp
  moreover have "fst ` set cvs \<subseteq> set (cols ?df)"
    using Cons.prems(2) by (auto simp: set_set_col)
  ultimately obtain df' where "loc_setitem ?df sel cvs = Inr df'"
    using Cons.IH [of ?df] by blast
  then show ?case by (simp add: cv g si)
qed

lemma traverse_e_total:
  "\<forall>x\<in>set xs. \<exists>y. f x = Inr y \<Longrightarrow> \<exists>ys. traverse_e f xs = Inr ys"
proof (induction xs)
  case Nil
  show ?case by simp
next
  case (Cons x xs)
  then obtain y ys where "f x = Inr y" "traverse_e f xs = Inr ys" by auto
  then show ?case by simp
qed

lemma coords_total:
  "has_coordinates df a b \<Longrightarrow>
   \<exists>vc pts. coords df a b = Inr vc \<and> traverse_e point_of vc = Inr pts \<and>
     length vc = length (rows df) \<and> length pts = length (rows df)"
proof -
  assume h: "has_coordinates df a b"
  let ?vc = "map (\<lambda>r. (lookup (cols df) r a, lookup (cols df) r b)) (rows df)"
  have c: "coords df a b = Inr ?vc"
    using h by (simp add: has_coordinates_def coords_def getitem_def zip_map_map zip_same_conv_map)
  have "\<forall>r\<in>set (rows df). \<not> isl (point_of (lookup (cols df) r a, lookup (cols df) r b))"
    using h by (simp add: has_coordinates_def list_all_iff)
  from traverse_e_map_ok [of "rows df" point_of "\<lambda>r. (lookup (cols df) r a, lookup (cols df) r b)", OF this]
  obtain pts where p: "traverse_e point_of ?vc = Inr pts" by blast
  from traverse_e_length [OF p] have "length pts = length (rows df)" by simp
  with c p show ?thesis by simp
qed

lemma create_proximity_columns_total:
  assumes m: "mono fl" and z: "fl 0 = 0"
    and va: "has_coordinates (s a) ''latitude'' ''longitude''"
    and vp: "has_coordinates (s p) ''Latitude'' ''Longitude''"
    and nm: "''Main Port Name'' \<in> set (cols (s p))"
    and ne: "rows (s p) \<noteq> []"
  shows "\<exists>s'. create_proximity_columns fl s a p = Inr (s', a)"
proof -
  from coords_total [OF va] obtain vc ps where
    vc: "coords (s a) ''latitude'' ''longitude'' = Inr vc" and
    ps: "traverse_e point_of vc = Inr ps" and lvc: "length vc = length (rows (s a))" and
    lps: "length ps = length (rows (s a))"
    by blast
  from coords_total [OF vp] obtain pc pts where
    pc: "coords (s p) ''Latitude'' ''Longitude'' = Inr pc" and
    pts: "traverse_e point_of pc = Inr pts" and lpc: "length pc = length (rows (s p))" and
    lpts: "length pts = length (rows (s p))"
    by blast
  let ?names = "column (s p) ''Main Port Name''"
  have names: "getitem (s p) ''Main Port Name'' = Inr ?names"
    using nm by (simp add: getitem_Inr_iff)
  let ?tree = "(pts, build fl pts [0..<length pts])"
  have tree: "cKDTree fl pc = Inr ?tree" by (simp add: cKDTree_def pts)
  have pne: "pts \<noteq> []" using lpts ne by auto
  have "\<forall>x\<in>set ps. \<exists>y. query1 fl ?tree x = Inr y"
    using query1_total [OF m z pne] by blast
  from traverse_e_total [OF this] obtain nn where
    nn1: "traverse_e (query1 fl ?tree) ps = Inr nn" by blast
  have nn: "query fl ?tree vc = Inr nn" by (simp add: query_def ps nn1)
  have lnn: "length nn = length (rows (s a))" using traverse_e_length [OF nn1] lps by simp
  have rng: "\<forall>x\<in>set nn. snd x < length pts"
  proof
    fix x assume "x \<in> set nn"
    then obtain k where k: "k < length nn" "nn ! k = x" by (auto simp: in_set_conv_nth)
    from nn1 have "list_all2 (\<lambda>q n. query1 fl ?tree q = Inr n) ps nn"
      by (simp add: traverse_e_Inr_iff)
    with k have "query1 fl ?tree (ps ! k) = Inr (fst x, snd x)"
      by (simp add: list_all2_conv_all_nth)
    from query1_props(3) [OF m z this] show "snd x < length pts" .
  qed
  have "length (map Num (map fst nn)) = length (rows (s a))" using lnn by simp
  from store_setitem_total [where s = s and a = a and c = "''Distance to Nearest Port''", OF this] obtain s1 where
    s1: "store_setitem s a ''Distance to Nearest Port'' (map Num (map fst nn)) = Inr s1" and
    l1: "length (rows (s1 a)) = length (rows (s a))" and
    c1: "set (cols (s1 a)) = insert ''Distance to Nearest Port'' (set (cols (s a)))"
    by blast
  let ?ns = "map ((!) ?names) (map snd nn)"
  have ns: "traverse_e (nth_e ?names) (map snd nn) = Inr ?ns"
    using rng lpts by (intro traverse_nth_e_total) simp
  have "length ?ns = length (rows (s1 a))" using lnn l1 by simp
  from store_setitem_total [where s = s1 and a = a and c = "''Proximity Port Name''", OF this] obtain s2 where
    s2: "store_setitem s1 a ''Proximity Port Name'' ?ns = Inr s2" and
    l2: "length (rows (s2 a)) = length (rows (s1 a))" and
    c2: "set (cols (s2 a)) = insert ''Proximity Port Name'' (set (cols (s1 a)))"
    by blast
  let ?pcs = "map ((!) pc) (map snd nn)"
  have pcs: "traverse_e (nth_e pc) (map snd nn) = Inr ?pcs"
    using rng lpts lpc by (intro traverse_nth_e_total) simp
  have "length (map fst ?pcs) = length (rows (s2 a))" using lnn l1 l2 by simp
  from store_setitem_total [where s = s2 and a = a and c = "''Port Latitude''", OF this] obtain s3 where
    s3: "store_setitem s2 a ''Port Latitude'' (map fst ?pcs) = Inr s3" and
    l3: "length (rows (s3 a)) = length (rows (s2 a))" and
    c3: "set (cols (s3 a)) = insert ''Port Latitude'' (set (cols (s2 a)))"
    by blast
  have "length (map snd ?pcs) = length (rows (s3 a))" using lnn l1 l2 l3 by simp
  from store_setitem_total [where s = s3 and a = a and c = "''Port Longitude''", OF this] obtain s4 where
    s4: "store_setitem s3 a ''Port Longitude'' (map snd ?pcs) = Inr s4" and
    l4: "length (rows (s4 a)) = length (rows (s3 a))" and
    c4: "set (cols (s4 a)) = insert ''Port Longitude'' (set (cols (s3 a)))"
    by blast
  have "''Distance to Nearest Port'' \<in> set (cols (s4 a))" using c1 c2 c3 c4 by simp
  from threshold_loop_total [where s = s4 and a = a and
      ts = "[(1, ''1 km''), (3, ''3 km''), (5, ''5 km''), (10, ''10 km'')]", OF this]
  obtain s5 where
    s5: "threshold_loop s4 a [(1, ''1 km''), (3, ''3 km''), (5, ''5 km''), (10, ''10 km'')] = Inr s5"
    and l5: "length (rows (s5 a)) = length (rows (s4 a))"
    and c5: "set (cols (s5 a)) = set (cols (s4 a)) \<union>
      (\<lambda>t. ''Less than '' @ snd t @ '' from port'') `
        set [(1::real, ''1 km''), (3, ''3 km''), (5, ''5 km''), (10, ''10 km'')]"
    by blast
  have f1: "getitem (s5 a) ''Less than 1 km from port'' = Inr (column (s5 a) ''Less than 1 km from port'')"
    and f3: "getitem (s5 a) ''Less than 3 km from port'' = Inr (column (s5 a) ''Less than 3 km from port'')"
    and f5: "getitem (s5 a) ''Less than 5 km from port'' = Inr (column (s5 a) ''Less than 5 km from port'')"
    and f10: "getitem (s5 a) ''Less than 10 km from port'' = Inr (column (s5 a) ''Less than 10 km from port'')"
    unfolding getitem_Inr_iff c5 by simp_all
  let ?sel = "and_mask (and_mask (and_mask
       (eq_mask (column (s5 a) ''Less than 1 km from port'') (Str ''No''))
       (eq_mask (column (s5 a) ''Less than 3 km from port'') (Str ''No'')))
       (eq_mask (column (s5 a) ''Less than 5 km from port'') (Str ''No'')))
       (eq_mask (column (s5 a) ''Less than 10 km from port'') (Str ''No''))"
  have lsel: "length ?sel = length (rows (s5 a))" by (simp add: and_mask_def eq_mask_def)
  have "fst ` set [(''Proximity Port Name'', Str ''No''), (''Port Latitude'', NaN),
                (''Port Longitude'', NaN)] \<subseteq> set (cols (s5 a))"
    unfolding c5 c4 c3 c2 by simp
  from loc_setitem_total [OF lsel this] obtain df' where
    "loc_setitem (s5 a) ?sel [(''Proximity Port Name'', Str ''No''), (''Port Latitude'', NaN),
                (''Port Longitude'', NaN)] = Inr df'"
    by blast
  then have s6: "store_loc_setitem s5 a ?sel [(''Proximity Port Name'', Str ''No''),
      (''Port Latitude'', NaN), (''Port Longitude'', NaN)] = Inr (s5(a := df'))"
    by (simp add: store_loc_setitem_def)
  have "create_proximity_columns fl s a p = Inr (s5(a := df'), a)"
    unfolding create_proximity_columns_def vc pc names tree nn bind_e_simps Let_def
      s1 ns s2 pcs s3 s4 s5 f1 f3 f5 f10 s6 ..
  then show ?thesis by blast
qed

section \<open>The polygon containment annotator\<close>

lemma getitem_rows:
  "c \<in> set cs \<Longrightarrow> getitem \<lparr>cols = cs, rows = rs\<rparr> c = Inr (map (\<lambda>r. lookup cs r c) rs)"
  by (simp add: getitem_def)

lemma setitem_rows:
  "setitem \<lparr>cols = cs, rows = rs\<rparr> c (map g rs) =
     Inr \<lparr>cols = set_col cs c, rows = map (\<lambda>r. set_cell cs c (g r) r) rs\<rparr>"
  by (simp add: setitem_def map2_same_l)

lemma process_chunk_ok:
  assumes ok: "chunk_cols_ok cs" and rok: "\<forall>r\<in>set rs. chunk_row_ok cs r"
  shows "process_chunk W P \<lparr>cols = cs, rows = rs\<rparr> =
     Inr \<lparr>cols = chunk_cols cs, rows = concat (map (chunk_row W P cs) rs)\<rparr>"
proof -
  let ?df = "\<lparr>cols = cs, rows = rs\<rparr>"
  let ?cs1 = "set_col cs ''geometry''"
  let ?cs2 = "?cs1 @ [''index_right'', ''port_name'']"
  let ?cs3 = "set_col ?cs2 ''Parked in Port''"
  let ?cs4 = "set_col ?cs3 ''Port Name''"
  let ?r1 = "\<lambda>r. set_cell cs ''geometry'' (geometry_of cs r) r"
  let ?J = "concat (map (\<lambda>r. join_row W P ?cs1 (?r1 r)) rs)"
  let ?r3 = "\<lambda>rj. set_cell ?cs2 ''Parked in Port'' (notnull (lookup ?cs2 rj ''index_right'')) rj"
  let ?r4 = "\<lambda>r3. set_cell ?cs3 ''Port Name''
                       (where_val (Str ''No'') (lookup ?cs3 r3 ''port_name'')
                          (lookup ?cs3 r3 ''Parked in Port'')) r3"
  from ok have lon: "''longitude'' \<in> set cs" and lat: "''latitude'' \<in> set cs"
    and nl: "''index_left'' \<notin> set cs" and nr: "''index_right'' \<notin> set cs"
    and np: "''port_name'' \<notin> set cs"
    by (simp_all add: chunk_cols_ok_def)
  have g1: "getitem ?df ''longitude'' = Inr (map (\<lambda>r. lookup cs r ''longitude'') rs)"
    by (rule getitem_rows [OF lon])
  have g2: "getitem ?df ''latitude'' = Inr (map (\<lambda>r. lookup cs r ''latitude'') rs)"
    by (rule getitem_rows [OF lat])
  have p: "points_from_xy (map (\<lambda>r. lookup cs r ''longitude'') rs)
      (map (\<lambda>r. lookup cs r ''latitude'') rs) = Inr (map (geometry_of cs) rs)"
    using traverse_e_map_ok [of rs xy_point "\<lambda>r. (lookup cs r ''longitude'', lookup cs r ''latitude'')" NaN]
      rok
    by (simp add: points_from_xy_def zip_map_map zip_same_conv_map chunk_row_ok_def geometry_of_def
        comp_def)
  have s1: "setitem ?df ''geometry'' (map (geometry_of cs) rs) =
      Inr \<lparr>cols = ?cs1, rows = map ?r1 rs\<rparr>"
    by (rule setitem_rows)
  have same: "map (\<lambda>c. if c = ''port_name'' then ''port_name_left'' else c) ?cs1 = ?cs1"
    using np by (auto simp: set_set_col intro: map_idI)
  have j: "sjoin W \<lparr>cols = ?cs1, rows = map ?r1 rs\<rparr> P = Inr \<lparr>cols = ?cs2, rows = ?J\<rparr>"
    using nl nr np same by (simp add: sjoin_def set_set_col comp_def)
  have g3: "getitem \<lparr>cols = ?cs2, rows = ?J\<rparr> ''index_right'' =
      Inr (map (\<lambda>r. lookup ?cs2 r ''index_right'') ?J)"
    by (rule getitem_rows) simp
  have s3: "setitem \<lparr>cols = ?cs2, rows = ?J\<rparr> ''Parked in Port''
      (map notnull (map (\<lambda>r. lookup ?cs2 r ''index_right'') ?J)) =
      Inr \<lparr>cols = ?cs3, rows = map ?r3 ?J\<rparr>"
    using setitem_rows [of ?cs2 ?J "''Parked in Port''" "\<lambda>r. notnull (lookup ?cs2 r ''index_right'')"]
    by (simp add: comp_def)
  have g4: "getitem \<lparr>cols = ?cs3, rows = map ?r3 ?J\<rparr> ''port_name'' =
      Inr (map (\<lambda>r. lookup ?cs3 r ''port_name'') (map ?r3 ?J))"
    by (rule getitem_rows) (simp add: set_set_col)
  have g5: "getitem \<lparr>cols = ?cs3, rows = map ?r3 ?J\<rparr> ''Parked in Port'' =
      Inr (map (\<lambda>r. lookup ?cs3 r ''Parked in Port'') (map ?r3 ?J))"
    by (rule getitem_rows) (simp add: set_set_col)
  have s4: "setitem \<lparr>cols = ?cs3, rows = map ?r3 ?J\<rparr> ''Port Name''
      (map2 (where_val (Str ''No'')) (map (\<lambda>r. lookup ?cs3 r ''port_name'') (map ?r3 ?J))
         (map (\<lambda>r. lookup ?cs3 r ''Parked in Port'') (map ?r3 ?J))) =
      Inr \<lparr>cols = ?cs4, rows = map ?r4 (map ?r3 ?J)\<rparr>"
    using setitem_rows [of ?cs3 "map ?r3 ?J" "''Port Name''"
        "\<lambda>r. where_val (Str ''No'') (lookup ?cs3 r ''port_name'') (lookup ?cs3 r ''Parked in Port'')"]
    by (simp only: map2_same)
  have d: "drop_columns \<lparr>cols = ?cs4, rows = map ?r4 (map ?r3 ?J)\<rparr> [''geometry'', ''index_right''] =
      Inr \<lparr>cols = chunk_cols cs,
            rows = map (drop_cells ?cs4 [''geometry'', ''index_right'']) (map ?r4 (map ?r3 ?J))\<rparr>"
    by (simp add: drop_columns_def set_set_col chunk_cols_def)
  have rows_eq: "map (drop_cells ?cs4 [''geometry'', ''index_right'']) (map ?r4 (map ?r3 ?J)) =
      concat (map (chunk_row W P cs) rs)"
    unfolding chunk_row_def [abs_def] finish_row_def [abs_def] Let_def
    by (simp add: map_concat comp_def)
  show ?thesis
    unfolding process_chunk_def
    by (simp only: g1 g2 p s1 j g3 s3 g4 g5 s4 d rows_eq bind_e_simps)
qed

lemma process_chunk_Inr:
  assumes run: "process_chunk W P df = Inr out"
  shows "chunk_cols_ok (cols df)" "\<forall>r\<in>set (rows df). chunk_row_ok (cols df) r"
proof -
  from run obtain xs ys pts v j ir j3 nms where
    xs: "getitem df ''longitude'' = Inr xs" and ys: "getitem df ''latitude'' = Inr ys" and
    pts: "points_from_xy xs ys = Inr pts" and
    v: "setitem df ''geometry'' pts = Inr v" and
    j: "sjoin W v P = Inr j" and
    ir: "getitem j ''index_right'' = Inr ir" and
    j3: "setitem j ''Parked in Port'' (map notnull ir) = Inr j3" and
    nms: "getitem j3 ''port_name'' = Inr nms"
    unfolding process_chunk_def bind_e_Inr_iff by auto
  from xs ys have lon: "''longitude'' \<in> set (cols df)" and lat: "''latitude'' \<in> set (cols df)"
    and xsv: "xs = map (\<lambda>r. lookup (cols df) r ''longitude'') (rows df)"
    and ysv: "ys = map (\<lambda>r. lookup (cols df) r ''latitude'') (rows df)"
    by (auto simp: getitem_def split: if_splits)
  from v have cv: "set (cols v) = insert ''geometry'' (set (cols df))"
    by (auto simp: setitem_def set_set_col split: if_splits)
  from j have nlr: "''index_left'' \<notin> set (cols v)" "''index_right'' \<notin> set (cols v)"
    and cj: "cols j = map (\<lambda>c. if c = ''port_name'' then ''port_name_left'' else c) (cols v) @
       [''index_right'', if ''port_name'' \<in> set (cols v) then ''port_name_right'' else ''port_name'']"
    by (auto simp: sjoin_def split: if_splits)
  from j3 have cj3: "set (cols j3) = insert ''Parked in Port'' (set (cols j))"
    by (auto simp: setitem_def set_set_col split: if_splits)
  from nms have "''port_name'' \<in> set (cols j3)" by (auto simp: getitem_def split: if_splits)
  with cj3 have "''port_name'' \<in> set (cols j)" by simp
  then have np: "''port_name'' \<notin> set (cols v)"
    unfolding cj by (auto split: if_splits)
  show "chunk_cols_ok (cols df)"
    using lon lat nlr np cv by (simp add: chunk_cols_ok_def)
  from traverse_e_ok [OF pts [unfolded points_from_xy_def]]
  show "\<forall>r\<in>set (rows df). chunk_row_ok (cols df) r"
    by (simp add: xsv ysv zip_map_map zip_same_conv_map chunk_row_ok_def)
qed

lemma process_chunk_iff:
  "process_chunk W P df = Inr out \<longleftrightarrow>
     chunk_cols_ok (cols df) \<and> (\<forall>r\<in>set (rows df). chunk_row_ok (cols df) r) \<and>
     out = \<lparr>cols = chunk_cols (cols df), rows = concat (map (chunk_row W P (cols df)) (rows df))\<rparr>"
proof
  assume run: "process_chunk W P df = Inr out"
  note ok = process_chunk_Inr [OF run]
  have "df = \<lparr>cols = cols df, rows = rows df\<rparr>" by simp
  with process_chunk_ok [OF ok] run show "chunk_cols_ok (cols df) \<and>
     (\<forall>r\<in>set (rows df). chunk_row_ok (cols df) r) \<and>
     out = \<lparr>cols = chunk_cols (cols df), rows = concat (map (chunk_row W P (cols df)) (rows df))\<rparr>"
    using ok by (metis sum.inject(2))
next
  assume a: "chunk_cols_ok (cols df) \<and> (\<forall>r\<in>set (rows df). chunk_row_ok (cols df) r) \<and>
     out = \<lparr>cols = chunk_cols (cols df), rows = concat (map (chunk_row W P (cols df)) (rows df))\<rparr>"
  have "df = \<lparr>cols = cols df, rows = rows df\<rparr>" by simp
  with a process_chunk_ok [of "cols df" "rows df" W P] show "process_chunk W P df = Inr out"
    by metis
qed

lemma range_py_chunks:
  assumes "0 < k" "0 \<le> i"
  shows "concat (map (\<lambda>j. take (nat (j + k) - nat j) (drop (nat j) rs)) (range_py i (int (length rs)) k))
     = drop (nat i) rs"
  using assms
proof (induction i "int (length rs)" k rule: range_py.induct)
  case (1 i k)
  show ?case
  proof (cases "i < int (length rs)")
    case True
    have step: "range_py i (int (length rs)) k = i # range_py (i + k) (int (length rs)) k"
      using True "1.prems" by (subst range_py.simps) simp
    have IH: "concat (map (\<lambda>j. take (nat (j + k) - nat j) (drop (nat j) rs))
        (range_py (i + k) (int (length rs)) k)) = drop (nat (i + k)) rs"
      using "1.hyps" True "1.prems" by simp
    have "nat (i + k) = nat i + nat k" using "1.prems" by (simp add: nat_add_distrib)
    then show ?thesis
      unfolding step
      by (simp add: IH) (metis add.commute append_take_drop_id drop_drop)
  next
    case False
    then have "range_py i (int (length rs)) k = []"
      using "1.prems" by (subst range_py.simps) simp
    with False "1.prems" show ?thesis by (simp)
  qed
qed

lemma traverse_chunks_iff:
  "traverse_e (\<lambda>i. process_chunk W P (iloc df (nat i) (nat (i + k)))) js = Inr results \<longleftrightarrow>
     (js = [] \<or> chunk_cols_ok (cols df)) \<and>
     (\<forall>i\<in>set js. \<forall>r\<in>set (rows (iloc df (nat i) (nat (i + k)))). chunk_row_ok (cols df) r) \<and>
     results = map (\<lambda>i. \<lparr>cols = chunk_cols (cols df),
                          rows = concat (map (chunk_row W P (cols df))
                                   (rows (iloc df (nat i) (nat (i + k)))))\<rparr>) js"
proof (induction js arbitrary: results)
  case Nil
  show ?case by auto
next
  case (Cons i js)
  have c: "cols (iloc df (nat i) (nat (i + k))) = cols df" by (simp add: iloc_def)
  show ?case
    by (auto simp: bind_e_Inr_iff process_chunk_iff Cons.IH c)
qed

lemma concat_map_concat: "concat (map (\<lambda>x. concat (map f (g x))) xs) = concat (map f (concat (map g xs)))"
  by (induction xs) simp_all

lemma range_py_nonempty: "0 < k \<Longrightarrow> i < n \<Longrightarrow> range_py i n k \<noteq> []"
  by (subst range_py.simps) simp

lemma process_with_polygons_iff:
  assumes k: "0 < k" and ne: "rows df \<noteq> []"
  shows "process_with_polygons W T df P k = Inr out \<longleftrightarrow>
     chunk_cols_ok (cols df) \<and> (\<forall>r\<in>set (rows df). chunk_row_ok (cols df) r) \<and>
     out = \<lparr>cols = chunk_cols (cols df),
            rows = concat (map (chunk_row W (frame_to_crs T P) (cols df))
                     (rows df))\<rparr>"
proof -
  let ?P = "frame_to_crs T P"
  let ?js = "range_py 0 (int (length (rows df))) k"
  let ?chunk = "\<lambda>i. take (nat (i + k) - nat i) (drop (nat i) (rows df))"
  have js: "?js \<noteq> []" using k ne by (intro range_py_nonempty) simp_all
  have cc: "concat (map ?chunk ?js) = rows df"
    using range_py_chunks [of k 0 "rows df"] k by simp
  have rws: "\<And>i. rows (iloc df (nat i) (nat (i + k))) = ?chunk i" by (simp add: iloc_def)
  have allr: "(\<forall>i\<in>set ?js. \<forall>r\<in>set (?chunk i). chunk_row_ok (cols df) r) \<longleftrightarrow>
      (\<forall>r\<in>set (rows df). chunk_row_ok (cols df) r)"
  proof -
    have "(\<forall>i\<in>set ?js. \<forall>r\<in>set (?chunk i). chunk_row_ok (cols df) r) \<longleftrightarrow>
      (\<forall>r\<in>set (concat (map ?chunk ?js)). chunk_row_ok (cols df) r)"
      by (simp)
    then show ?thesis by (simp only: cc)
  qed
  have rows_eq: "concat (map (\<lambda>i. concat (map (chunk_row W ?P (cols df)) (?chunk i))) ?js) =
      concat (map (chunk_row W ?P (cols df)) (rows df))"
  proof -
    have "concat (map (\<lambda>i. concat (map (chunk_row W ?P (cols df)) (?chunk i))) ?js) =
      concat (map (chunk_row W ?P (cols df)) (concat (map ?chunk ?js)))"
      by (rule concat_map_concat)
    then show ?thesis by (simp only: cc)
  qed
  have pc: "\<And>fs. fs \<noteq> [] \<Longrightarrow> pd_concat fs = Inr \<lparr>cols = cols (hd fs), rows = concat (map rows fs)\<rparr>"
    by (simp add: pd_concat_def split: list.splits)
  show ?thesis
    unfolding process_with_polygons_def Let_def
    using k js
    by (auto simp: bind_e_Inr_iff traverse_chunks_iff rws allr pc hd_map comp_def rows_eq)
qed

lemma lookup_drop_cells:
  "length r = length cs \<Longrightarrow> c \<in> set cs \<Longrightarrow> c \<notin> set ds \<Longrightarrow>
     lookup (filter (\<lambda>c. c \<notin> set ds) cs) (drop_cells cs ds r) c = lookup cs r c"
proof (induction cs arbitrary: r)
  case Nil
  then show ?case by simp
next
  case (Cons x xs)
  then obtain y ys where r: "r = y # ys" by (cases r) auto
  with Cons.prems have len: "length ys = length xs" by simp
  show ?case
  proof (cases "x = c")
    case True
    with Cons.prems show ?thesis by (simp add: r lookup_def drop_cells_def)
  next
    case False
    with Cons.prems have "c \<in> set xs" by simp
    from Cons.IH [OF len this Cons.prems(3)] False show ?thesis
      by (simp add: r lookup_def drop_cells_def)
  qed
qed

lemma length_drop_cells:
  "length r = length cs \<Longrightarrow> length (drop_cells cs ds r) = length (filter (\<lambda>c. c \<notin> set ds) cs)"
proof (induction cs arbitrary: r)
  case Nil
  then show ?case by (simp add: drop_cells_def)
next
  case (Cons x xs)
  then obtain y ys where r: "r = y # ys" by (cases r) auto
  with Cons.prems have len: "length ys = length xs" by simp
  from Cons.IH [OF len] show ?case by (simp add: r drop_cells_def)
qed

lemma append_as_set_cell:
  assumes "a \<notin> set cs" "b \<notin> set cs" "a \<noteq> b"
  shows "cs @ [a, b] = set_col (set_col cs a) b" "r @ [u, v] = set_cell (set_col cs a) b v (set_cell cs a u r)"
  using assms by (simp_all add: set_col_def set_cell_def)

lemma finish_row_cells:
  assumes len: "length r1 = length (set_col cs ''geometry'')"
    and ok: "chunk_cols_ok cs"
  shows "length (finish_row cs (r1 @ [ir, pn])) = length (chunk_cols cs)"
    "lookup (chunk_cols cs) (finish_row cs (r1 @ [ir, pn])) ''Parked in Port'' = notnull ir"
    "lookup (chunk_cols cs) (finish_row cs (r1 @ [ir, pn])) ''Port Name''
       = where_val (Str ''No'') pn (notnull ir)"
    "lookup (chunk_cols cs) (finish_row cs (r1 @ [ir, pn])) ''port_name'' = pn"
    "\<And>c. c \<in> set cs \<Longrightarrow> c \<notin> {''geometry'', ''Parked in Port'', ''Port Name''} \<Longrightarrow>
       lookup (chunk_cols cs) (finish_row cs (r1 @ [ir, pn])) c
         = lookup (set_col cs ''geometry'') r1 c"
proof -
  let ?cs1 = "set_col cs ''geometry''"
  let ?cs2 = "?cs1 @ [''index_right'', ''port_name'']"
  let ?cs3 = "set_col ?cs2 ''Parked in Port''"
  let ?cs4 = "set_col ?cs3 ''Port Name''"
  let ?rj = "r1 @ [ir, pn]"
  let ?r3 = "set_cell ?cs2 ''Parked in Port'' (notnull (lookup ?cs2 ?rj ''index_right'')) ?rj"
  let ?r4 = "set_cell ?cs3 ''Port Name''
                 (where_val (Str ''No'') (lookup ?cs3 ?r3 ''port_name'')
                    (lookup ?cs3 ?r3 ''Parked in Port'')) ?r3"
  from ok have nr: "''index_right'' \<notin> set ?cs1" and np: "''port_name'' \<notin> set ?cs1"
    by (simp_all add: chunk_cols_ok_def set_set_col)
  have A: "?cs2 = set_col (set_col ?cs1 ''index_right'') ''port_name''"
    "?rj = set_cell (set_col ?cs1 ''index_right'') ''port_name'' pn
             (set_cell ?cs1 ''index_right'' ir r1)"
    using nr np by (simp_all add: append_as_set_cell)
  have l1: "length (set_cell ?cs1 ''index_right'' ir r1) = length (set_col ?cs1 ''index_right'')"
    by (rule length_set_cell [OF len])
  have lj: "length ?rj = length ?cs2" using len by simp
  have ir: "lookup ?cs2 ?rj ''index_right'' = ir"
    unfolding A using lookup_set_cell [OF l1, of "''index_right''" "''port_name''" pn]
      lookup_set_cell [OF len, of "''index_right''" "''index_right''" ir]
    by (simp add: set_set_col)
  have pn: "lookup ?cs2 ?rj ''port_name'' = pn"
    unfolding A using lookup_set_cell [OF l1, of "''port_name''" "''port_name''" pn]
    by (simp add: set_set_col)
  have old: "\<And>c. c \<in> set ?cs1 \<Longrightarrow> lookup ?cs2 ?rj c = lookup ?cs1 r1 c"
  proof -
    fix c assume c: "c \<in> set ?cs1"
    with nr np have "c \<noteq> ''index_right''" "c \<noteq> ''port_name''" by auto
    then show "lookup ?cs2 ?rj c = lookup ?cs1 r1 c"
      unfolding A using lookup_set_cell [OF l1, of c "''port_name''" pn]
        lookup_set_cell [OF len, of c "''index_right''" ir] c
      by (simp add: set_set_col)
  qed
  have l3: "length ?r3 = length ?cs3" by (rule length_set_cell [OF lj])
  have l4: "length ?r4 = length ?cs4" by (rule length_set_cell [OF l3])
  have fr: "finish_row cs ?rj = drop_cells ?cs4 [''geometry'', ''index_right''] ?r4"
    by (simp add: finish_row_def Let_def)
  have cc: "chunk_cols cs = filter (\<lambda>c. c \<notin> set [''geometry'', ''index_right'']) ?cs4"
    by (simp add: chunk_cols_def)
  have L: "\<And>c. c \<in> set ?cs4 \<Longrightarrow> c \<notin> set [''geometry'', ''index_right''] \<Longrightarrow>
      lookup (chunk_cols cs) (finish_row cs ?rj) c = lookup ?cs4 ?r4 c"
    unfolding fr cc by (rule lookup_drop_cells [OF l4])
  have pip3: "lookup ?cs3 ?r3 ''Parked in Port'' = notnull ir"
    using lookup_set_cell [OF lj, of "''Parked in Port''" "''Parked in Port''"] ir by simp
  have pn3: "lookup ?cs3 ?r3 ''port_name'' = pn"
    using lookup_set_cell [OF lj, of "''port_name''" "''Parked in Port''"] pn by simp
  show "length (finish_row cs ?rj) = length (chunk_cols cs)"
    unfolding fr cc by (rule length_drop_cells [OF l4])
  show "lookup (chunk_cols cs) (finish_row cs ?rj) ''Parked in Port'' = notnull ir"
    using L [of "''Parked in Port''"] lookup_set_cell [OF l3, of "''Parked in Port''" "''Port Name''"] pip3
    by (simp add: set_set_col)
  show "lookup (chunk_cols cs) (finish_row cs ?rj) ''Port Name'' = where_val (Str ''No'') pn (notnull ir)"
    using L [of "''Port Name''"] lookup_set_cell [OF l3, of "''Port Name''" "''Port Name''"] pip3 pn3
    by (simp add: set_set_col)
  show "lookup (chunk_cols cs) (finish_row cs ?rj) ''port_name'' = pn"
    using L [of "''port_name''"] lookup_set_cell [OF l3, of "''port_name''" "''Port Name''"] pn3
    by (simp add: set_set_col)
  fix c assume c: "c \<in> set cs" and n: "c \<notin> {''geometry'', ''Parked in Port'', ''Port Name''}"
  from ok c have ne: "c \<noteq> ''index_right''" "c \<noteq> ''port_name''"
    by (auto simp: chunk_cols_ok_def)
  have "lookup (chunk_cols cs) (finish_row cs ?rj) c = lookup ?cs4 ?r4 c"
    using L [of c] c n ne by (simp add: set_set_col)
  also have "\<dots> = lookup ?cs3 ?r3 c"
    using lookup_set_cell [OF l3, of c "''Port Name''"] c n by (simp add: set_set_col)
  also have "\<dots> = lookup ?cs2 ?rj c"
    using lookup_set_cell [OF lj, of c "''Parked in Port''"] c n by (simp add: set_set_col)
  also have "\<dots> = lookup ?cs1 r1 c" using old [of c] c by (simp add: set_set_col)
  finally show "lookup (chunk_cols cs) (finish_row cs ?rj) c = lookup ?cs1 r1 c" .
qed

lemma range_py_empty: "k < 0 \<Longrightarrow> 0 \<le> n \<Longrightarrow> range_py 0 n k = []"
  by (subst range_py.simps) simp

lemma range_py_zero_len: "range_py 0 0 k = []"
  by (subst range_py.simps) simp

lemma process_with_polygons_fails:
  assumes "k \<le> 0 \<or> rows df = []"
  shows "process_with_polygons W T df P k = Inl ValueError"
proof (cases "k = 0")
  case True
  then show ?thesis by (simp add: process_with_polygons_def)
next
  case False
  have "range_py 0 (int (length (rows df))) k = []"
  proof (cases "k < 0")
    case True
    then show ?thesis by (simp add: range_py_empty)
  next
    case pos: False
    with assms False have "rows df = []" by auto
    then show ?thesis by (simp add: range_py_zero_len)
  qed
  with False show ?thesis by (simp add: process_with_polygons_def pd_concat_def)
qed

lemma process_with_polygons_Inr_iff:
  "process_with_polygons W T df P k = Inr out \<longleftrightarrow>
     0 < k \<and> rows df \<noteq> [] \<and>
     chunk_cols_ok (cols df) \<and> (\<forall>r\<in>set (rows df). chunk_row_ok (cols df) r) \<and>
     out = \<lparr>cols = chunk_cols (cols df),
            rows = concat (map (chunk_row W (frame_to_crs T P) (cols df)) (rows df))\<rparr>"
proof (cases "0 < k \<and> rows df \<noteq> []")
  case True
  then show ?thesis using process_with_polygons_iff [of k df W T P out] by simp
next
  case False
  then have "k \<le> 0 \<or> rows df = []" by auto
  from process_with_polygons_fails [OF this, of W T P] False show ?thesis by auto
qed

lemma matches_Geom:
  "matches W P (Geom x y) = filter (\<lambda>j. W (x, y) (polygon (P ! j))) [0..<length P]"
  by (simp add: matches_def)

lemma length_filter_nth:
  "length (filter (\<lambda>j. Q (xs ! j)) [0..<length xs]) = length (filter Q xs)"
proof -
  have "filter Q (map ((!) xs) [0..<length xs]) = map ((!) xs) (filter (Q \<circ> (!) xs) [0..<length xs])"
    by (rule filter_map)
  then have "length (filter Q xs) = length (filter (Q \<circ> (!) xs) [0..<length xs])"
    by (simp add: map_nth)
  then show ?thesis by (simp add: comp_def)
qed

lemma matches_at_most_one:
  assumes "non_overlapping W P"
  shows "length (matches W P g) \<le> 1"
proof (cases g)
  case (Geom x y)
  have "length (matches W P g) = length (filter (\<lambda>p. W (x, y) (polygon p)) P)"
    unfolding Geom matches_Geom by (rule length_filter_nth)
  with assms show ?thesis by (simp add: non_overlapping_def)
qed (simp_all add: matches_def)

lemma length_join_row:
  "length (join_row W P cs r) = max 1 (length (matches W P (lookup cs r ''geometry'')))"
  by (simp add: join_row_def split: list.splits)

lemma length_chunk_row:
  "non_overlapping W P \<Longrightarrow> length (chunk_row W P cs r) = 1"
proof -
  assume "non_overlapping W P"
  from matches_at_most_one [OF this]
  have "length (matches W P (lookup (set_col cs ''geometry'')
      (set_cell cs ''geometry'' (geometry_of cs r) r) ''geometry'')) \<le> 1" .
  then show ?thesis by (simp add: chunk_row_def length_join_row max_def)
qed

lemma concat_singletons:
  "\<forall>x\<in>set xs. length (f x) = 1 \<Longrightarrow> concat (map f xs) = map (\<lambda>x. hd (f x)) xs"
proof (induction xs)
  case Nil
  show ?case by simp
next
  case (Cons x xs)
  then have "length (f x) = 1" by simp
  then obtain y where "f x = [y]" by (cases "f x") auto
  with Cons show ?case by simp
qed

lemma set_chunk_cols:
  "set (chunk_cols cs) =
     (set cs - {''geometry'', ''index_right''}) \<union> {''port_name'', ''Parked in Port'', ''Port Name''}"
  by (auto simp: chunk_cols_def set_set_col)

lemma geometry_lookup:
  assumes "length r = length cs"
  shows "lookup (set_col cs ''geometry'') (set_cell cs ''geometry'' g r) ''geometry'' = g"
    "length (set_cell cs ''geometry'' g r) = length (set_col cs ''geometry'')"
    "\<And>c. c \<in> set cs \<Longrightarrow> c \<noteq> ''geometry'' \<Longrightarrow>
       lookup (set_col cs ''geometry'') (set_cell cs ''geometry'' g r) c = lookup cs r c"
  using lookup_set_cell [OF assms, of _ "''geometry''" g] length_set_cell [OF assms]
  by simp_all

text \<open>The rows that one record gives, by the polygons its point is within.\<close>

lemma chunk_row_cases:
  assumes len: "length r = length cs" and ok: "chunk_cols_ok cs"
    and r': "r' \<in> set (chunk_row W P cs r)"
  shows "length r' = length (chunk_cols cs)"
    "\<And>c. c \<in> set cs \<Longrightarrow> c \<notin> {''geometry'', ''Parked in Port'', ''Port Name''} \<Longrightarrow>
       lookup (chunk_cols cs) r' c = lookup cs r c"
    "matches W P (geometry_of cs r) = [] \<Longrightarrow>
       lookup (chunk_cols cs) r' ''Parked in Port'' = Bool False \<and>
       lookup (chunk_cols cs) r' ''Port Name'' = Str ''No'' \<and>
       lookup (chunk_cols cs) r' ''port_name'' = NaN"
    "matches W P (geometry_of cs r) \<noteq> [] \<Longrightarrow>
       \<exists>j\<in>set (matches W P (geometry_of cs r)).
         lookup (chunk_cols cs) r' ''Parked in Port'' = Bool True \<and>
         lookup (chunk_cols cs) r' ''Port Name'' = port_name (P ! j) \<and>
         lookup (chunk_cols cs) r' ''port_name'' = port_name (P ! j)"
proof -
  let ?cs1 = "set_col cs ''geometry''"
  let ?r1 = "set_cell cs ''geometry'' (geometry_of cs r) r"
  note G = geometry_lookup [OF len, where g = "geometry_of cs r"]
  note F = finish_row_cells [OF G(2) ok]
  from r' have "r' \<in> finish_row cs ` set (join_row W P ?cs1 ?r1)"
    by (simp add: chunk_row_def)
  then obtain ir pn where r'eq: "r' = finish_row cs (?r1 @ [ir, pn])"
    and cases: "(matches W P (geometry_of cs r) = [] \<and> ir = NaN \<and> pn = NaN) \<or>
      (\<exists>j\<in>set (matches W P (geometry_of cs r)). ir = Num (real j) \<and> pn = port_name (P ! j))"
    unfolding join_row_def G(1) by (auto split: list.splits)
  show "length r' = length (chunk_cols cs)" unfolding r'eq by (rule F(1))
  show "\<And>c. c \<in> set cs \<Longrightarrow> c \<notin> {''geometry'', ''Parked in Port'', ''Port Name''} \<Longrightarrow>
       lookup (chunk_cols cs) r' c = lookup cs r c"
    unfolding r'eq using F(5) G(3) by simp
  show "matches W P (geometry_of cs r) = [] \<Longrightarrow>
       lookup (chunk_cols cs) r' ''Parked in Port'' = Bool False \<and>
       lookup (chunk_cols cs) r' ''Port Name'' = Str ''No'' \<and>
       lookup (chunk_cols cs) r' ''port_name'' = NaN"
    unfolding r'eq using cases F(2,3,4) [of ir pn]
    by (auto simp: notnull_def where_val_def)
  show "matches W P (geometry_of cs r) \<noteq> [] \<Longrightarrow>
       \<exists>j\<in>set (matches W P (geometry_of cs r)).
         lookup (chunk_cols cs) r' ''Parked in Port'' = Bool True \<and>
         lookup (chunk_cols cs) r' ''Port Name'' = port_name (P ! j) \<and>
         lookup (chunk_cols cs) r' ''port_name'' = port_name (P ! j)"
    unfolding r'eq using cases F(2,3,4) [of ir pn]
    by (auto simp: notnull_def where_val_def)
qed

lemma chunk_row_nonempty: "chunk_row W P cs r \<noteq> []"
  by (simp add: chunk_row_def join_row_def split: list.splits)

lemma at_most_one_elem: "length xs \<le> 1 \<Longrightarrow> a \<in> set xs \<Longrightarrow> b \<in> set xs \<Longrightarrow> a = b"
  by (cases xs) auto

lemma frame_to_crs_nth:
  "j < length P \<Longrightarrow> polygon (frame_to_crs T P ! j) = T (polygon (P ! j))"
  "j < length P \<Longrightarrow> port_name (frame_to_crs T P ! j) = port_name (P ! j)"
  "length (frame_to_crs T P) = length P"
  by (simp_all add: frame_to_crs_def)

lemma set_matches:
  "set (matches W (frame_to_crs T P) (Geom x y)) = {j. j < length P \<and> W (x, y) (T (polygon (P ! j)))}"
  by (auto simp: matches_Geom frame_to_crs_nth)

lemma matches_nonempty_iff:
  "matches W (frame_to_crs T P) (Geom x y) \<noteq> [] \<longleftrightarrow> (\<exists>p\<in>set P. W (x, y) (T (polygon p)))"
proof -
  have "matches W (frame_to_crs T P) (Geom x y) \<noteq> [] \<longleftrightarrow>
      set (matches W (frame_to_crs T P) (Geom x y)) \<noteq> {}"
    by simp
  also have "\<dots> \<longleftrightarrow> (\<exists>j<length P. W (x, y) (T (polygon (P ! j))))"
    unfolding set_matches by auto
  also have "\<dots> \<longleftrightarrow> (\<exists>p\<in>set P. W (x, y) (T (polygon p)))"
    by (metis in_set_conv_nth)
  finally show ?thesis .
qed

lemma boundary_not_within: "on_boundary pt g \<Longrightarrow> \<not> within_polygon pt g"
  by (auto simp: on_boundary_def within_polygon_def list_ex_iff list_all_iff)

section \<open>The examples, evaluated\<close>

lemma sqrt_400: "sqrt 400 = 20"
proof -
  have "sqrt ((20::real)\<^sup>2) = 20" by simp
  then show ?thesis by simp
qed

lemma mono_id: "mono (\<lambda>x::real. x)"
  by (simp add: mono_def)

lemma ex_run:
  "create_proximity_columns (\<lambda>x. x) ex_store 0 1 = Inr (ex_store(0 := ex_annotated), 0)"
  by (simp add: create_proximity_columns_def ex_store_def ex_vessels_def ex_ports_def
      ex_annotated_def coords_def getitem_def lookup_def cKDTree_def query_def query1_def
      build_small euclid_def store_setitem_def setitem_def set_col_def set_cell_def nth_e_def
      yes_no_def eq_mask_def and_mask_def store_loc_setitem_def sqrt_400)

lemma ex_wf: "wf_frame (ex_store 0)"
  by (simp add: wf_frame_def ex_store_def ex_vessels_def)

lemma ex_cells:
  "cell ex_vessels 0 ''latitude'' = Num 0" "cell ex_vessels 0 ''longitude'' = Num 0"
  "cell ex_vessels 1 ''latitude'' = Num 20" "cell ex_vessels 1 ''longitude'' = Num 1"
  by (simp_all add: cell_def lookup_def ex_vessels_def)

text \<open>
  The index of the eighteen ports has an inner node; the search for the first position
  scans the leaf on its side and leaves the other leaf out.
\<close>

lemma upt_0_18: "[0..<18] = [0, 1, 2, 3, 4, 5, 6, 7, 8, 9, 10, 11, 12, 13, 14, 15, 16, 17::nat]"
  by (simp add: upt_rec)

lemma ex_line_points:
  "port_points ex_line_ports =
     [(0, 18), (0, 17), (0, 16), (0, 15), (0, 14), (0, 13), (0, 12), (0, 11), (0, 10), (0, 9),
      (0, 8), (0, 7), (0, 6), (0, 5), (0, 4), (0, 3), (0, 2), (0, 1)]"
  by (simp add: port_points_def ex_line_ports_def lookup_def)

lemma ex_line_index:
  "build (\<lambda>x. x) (port_points ex_line_ports) [0..<length (port_points ex_line_ports)]
     = Node True (19 / 2) (Leaf [9, 10, 11, 12, 13, 14, 15, 16, 17])
         (Leaf [0, 1, 2, 3, 4, 5, 6, 7, 8])"
  unfolding ex_line_points
  by (subst build.simps) (simp add: upt_0_18 spread_def coord_def build_small Let_def)

lemma ex_line_query:
  "query1 (\<lambda>x. x) (port_points ex_line_ports,
      build (\<lambda>x. x) (port_points ex_line_ports) [0..<length (port_points ex_line_ports)]) (0, 0)
     = Inr (1, 17)"
  unfolding ex_line_index
  by (simp add: query1_def ex_line_points coord_def plane_point_def euclid_def)

lemma ex_line_brute_force:
  "brute_force_distance (\<lambda>x. x) ex_line_ports (0, 0) = 1"
  by (simp add: brute_force_distance_def ex_line_points euclid_def)

lemma ex_line_coordinates:
  "has_coordinates (ex_line_store 0) ''latitude'' ''longitude''"
  "has_coordinates (ex_line_store 1) ''Latitude'' ''Longitude''"
  by (simp_all add: has_coordinates_def ex_line_store_def ex_vessels_def ex_line_ports_def
      lookup_def)

lemma ex_join:
  assumes "0 < k"
  shows "process_with_polygons within_polygon (\<lambda>g. g) ex_annotated ex_areas k = Inr ex_final"
proof -
  have ne: "rows ex_annotated \<noteq> []" by (simp add: ex_annotated_def)
  show ?thesis
    unfolding process_with_polygons_iff [OF assms ne]
    by (simp add: ex_annotated_def ex_final_def ex_areas_def chunk_cols_ok_def chunk_row_ok_def
        chunk_cols_def chunk_row_def finish_row_def geometry_of_def join_row_def matches_def
        frame_to_crs_def lookup_def set_col_def set_cell_def drop_cells_def
        notnull_def where_val_def within_polygon_def inside_ring_def on_ring_def
        ring_edges_def crosses_def on_segment_def)
qed

lemma ex_parked_run:
  assumes "0 < k"
  shows "process_with_polygons within_polygon (\<lambda>g. g) ex_positions ex_areas k = Inr ex_parked"
proof -
  have "rows ex_positions \<noteq> []" by (simp add: ex_positions_def)
  then show ?thesis
    unfolding process_with_polygons_Inr_iff using assms
    by (simp add: ex_positions_def ex_parked_def ex_areas_def chunk_cols_ok_def chunk_row_ok_def
        chunk_cols_def chunk_row_def finish_row_def geometry_of_def join_row_def matches_def
        frame_to_crs_def lookup_def set_col_def set_cell_def drop_cells_def
        notnull_def where_val_def within_polygon_def inside_ring_def on_ring_def
        ring_edges_def crosses_def on_segment_def)
qed

lemma ex_positions_wf: "wf_frame ex_positions"
  by (simp add: wf_frame_def ex_positions_def)

lemma ex_within:
  "within_polygon (0, 0) (polygon (ex_areas ! 0))"
  "on_boundary (2, 0) (polygon (ex_areas ! 0))"
  "\<not> within_polygon (2, 0) (polygon (ex_areas ! 1))"
  "within_polygon (12, 10.5) (polygon (ex_areas ! 1))"
  "\<not> within_polygon (12, 12) (polygon (ex_areas ! 0))"
  "\<not> within_polygon (12, 12) (polygon (ex_areas ! 1))"
  by (simp_all add: ex_areas_def within_polygon_def on_boundary_def inside_ring_def on_ring_def
      ring_edges_def crosses_def on_segment_def)

text \<open>The two areas do not overlap: the points inside the shell of the first have a
  longitude below 2, those inside the shell of the second a longitude of 10 at least.\<close>

lemma ex_inside_first:
  "inside_ring pt [(-1, -1), (2, -1), (2, 2), (-1, 2), (-1, -1)] \<Longrightarrow> fst pt < 2"
  by (cases pt) (auto simp: inside_ring_def ring_edges_def crosses_def split: if_splits)

lemma ex_inside_second:
  "inside_ring pt [(10, 10), (14, 10), (14, 14), (10, 14), (10, 10)] \<Longrightarrow> 10 \<le> fst pt"
  by (cases pt) (auto simp: inside_ring_def ring_edges_def crosses_def split: if_splits)

lemma ex_non_overlapping: "non_overlapping within_polygon (frame_to_crs (\<lambda>g. g) ex_areas)"
proof -
  have "\<not> (within_polygon pt (polygon (ex_areas ! 0)) \<and> within_polygon pt (polygon (ex_areas ! 1)))"
    for pt
    using ex_inside_first [of pt] ex_inside_second [of pt]
    by (auto simp: within_polygon_def ex_areas_def)
  then show ?thesis
    by (auto simp: non_overlapping_def frame_to_crs_def ex_areas_def)
qed

lemma ex_named_run:
  "create_proximity_columns (\<lambda>x. x) ex_named_store 0 1
     = Inr (ex_named_store(0 := ex_named_annotated), 0)"
  by (simp add: create_proximity_columns_def ex_named_store_def ex_named_def ex_ports_def
      ex_named_annotated_def coords_def getitem_def lookup_def cKDTree_def query_def query1_def
      build_small euclid_def store_setitem_def setitem_def set_col_def set_cell_def nth_e_def
      yes_no_def eq_mask_def and_mask_def store_loc_setitem_def)

lemma ex_named_join:
  assumes "0 < k"
  shows "process_with_polygons within_polygon (\<lambda>g. g) ex_named_annotated ex_areas k
     = Inr ex_named_final"
proof -
  have "rows ex_named_annotated \<noteq> []" by (simp add: ex_named_annotated_def)
  then show ?thesis
    unfolding process_with_polygons_Inr_iff using assms
    by (simp add: ex_named_annotated_def ex_named_final_def ex_areas_def chunk_cols_ok_def
        chunk_row_ok_def chunk_cols_def chunk_row_def finish_row_def geometry_of_def join_row_def
        matches_def frame_to_crs_def lookup_def set_col_def set_cell_def drop_cells_def
        notnull_def where_val_def within_polygon_def inside_ring_def on_ring_def
        ring_edges_def crosses_def on_segment_def)
qed

lemma ex_named_cells:
  "cell ex_named 0 ''Port Name'' = Str ''Rotterdam''"
  "cell ex_named_final 0 ''Port Name'' = Str ''Alpha''"
  by (simp_all add: cell_def lookup_def ex_named_def ex_named_final_def)

lemma ex_load:
  "load_and_clean_data (\<lambda>p. Inr ex_vessels) Inr Inr Inr path = Inr ex_vessels"
  by (simp add: load_and_clean_data_def drop_duplicates_def ex_vessels_def)

lemma ex_ports_dd: "drop_duplicates ex_ports = ex_ports"
  by (simp add: drop_duplicates_def ex_ports_def)

lemma ex_areas_dd: "keep_first [] ex_areas = ex_areas"
  by (simp add: ex_areas_def)

lemma ex_main:
  "main (\<lambda>x. x) (\<lambda>p. Inr ex_vessels) Inr Inr Inr (Inr ex_ports) (Inr ex_areas) within_polygon
     (\<lambda>g. g) = Inr ex_final"
proof -
  have s: "(\<lambda>a. if a = 0 then ex_vessels else drop_duplicates ex_ports) = ex_store"
    by (simp add: ex_store_def ex_ports_dd cong: if_cong)
  have j: "process_with_polygons within_polygon (\<lambda>g. g) ex_annotated ex_areas 10000 = Inr ex_final"
    by (rule ex_join) simp
  show ?thesis
    unfolding main_def ex_load bind_e_simps Let_def ex_areas_dd s ex_run case_prod_conv
      fun_upd_same j ..
qed

section \<open>Claims on the nearest-port annotator\<close>

lemma yes_no_simps:
  "yes_no b = Str ''Yes'' \<longleftrightarrow> b" "yes_no b = Str ''No'' \<longleftrightarrow> \<not> b"
  by (simp_all add: yes_no_def)

text \<open>
  C1. On a position table with numeric latitude and longitude in every row, and a port
  table of at least one row with numeric coordinates and a column of names, the
  nearest-port annotator returns; and for every record the cell under
  \<^verbatim>\<open>Distance to Nearest Port\<close> of the table it returns is the least Euclidean
  distance, in the plane, from the pair (latitude, longitude) to the pairs (Latitude,
  Longitude) of the rows of the port table: the answer of the search in the index, which
  leaves subtrees out, agrees with the brute-force minimum over all the rows. The
  arithmetic is rounded by any monotone \<open>fl\<close> that keeps 0, the same in the search and in
  the brute-force reference.
\<close>

theorem distance_is_brute_force_minimum:
  assumes "mono fl" and "fl 0 = 0"
    and "has_coordinates (s a) ''latitude'' ''longitude''"
    and "has_coordinates (s p) ''Latitude'' ''Longitude''"
    and "''Main Port Name'' \<in> set (cols (s p))" and "rows (s p) \<noteq> []"
    and "wf_frame (s a)" and "i < length (rows (s a))"
  shows "\<exists>s' la lo. create_proximity_columns fl s a p = Inr (s', a) \<and>
    cell (s a) i ''latitude'' = Num la \<and> cell (s a) i ''longitude'' = Num lo \<and>
    length (port_points (s p)) = length (rows (s p)) \<and>
    cell (s' a) i ''Distance to Nearest Port'' = Num (brute_force_distance fl (s p) (la, lo))"
proof -
  from create_proximity_columns_total [OF assms(1-6)] obtain s' where
    run: "create_proximity_columns fl s a p = Inr (s', a)" by blast
  from record_annotation [OF assms(1,2) run assms(7,8)] obtain la lo d where
    "cell (s a) i ''latitude'' = Num la" "cell (s a) i ''longitude'' = Num lo"
    "length (port_points (s p)) = length (rows (s p))"
    "d = Min (euclid fl (la, lo) ` set (port_points (s p)))"
    "cell (s' a) i ''Distance to Nearest Port'' = Num d"
    by blast
  with run show ?thesis by (auto simp: brute_force_distance_def)
qed

theorem distance_is_brute_force_minimum_witness:
  "mono (\<lambda>x::real. x) \<and> (\<lambda>x::real. x) 0 = 0 \<and>
   has_coordinates (ex_line_store 0) ''latitude'' ''longitude'' \<and>
   has_coordinates (ex_line_store 1) ''Latitude'' ''Longitude'' \<and>
   ''Main Port Name'' \<in> set (cols (ex_line_store 1)) \<and> rows (ex_line_store 1) \<noteq> [] \<and>
   wf_frame (ex_line_store 0) \<and> (0::nat) < length (rows (ex_line_store 0)) \<and>
   length (rows (ex_line_store 1)) = 18 \<and>
   cell (ex_line_store 0) 0 ''latitude'' = Num 0 \<and>
   cell (ex_line_store 0) 0 ''longitude'' = Num 0 \<and>
   brute_force_distance (\<lambda>x. x) (ex_line_store 1) (0, 0) = 1 \<and>
   (\<exists>s'. create_proximity_columns (\<lambda>x. x) ex_line_store 0 1 = Inr (s', 0) \<and>
      cell (s' 0) 0 ''Distance to Nearest Port'' = Num 1)"
proof -
  have nm: "''Main Port Name'' \<in> set (cols (ex_line_store 1))"
    and ne: "rows (ex_line_store 1) \<noteq> []"
    and n: "length (rows (ex_line_store 1)) = 18"
    and wf: "wf_frame (ex_line_store 0)"
    and len: "(0::nat) < length (rows (ex_line_store 0))"
    by (simp_all add: ex_line_store_def ex_line_ports_def ex_vessels_def wf_frame_def)
  have z: "(\<lambda>x::real. x) 0 = 0" by simp
  have c: "cell (ex_line_store 0) 0 ''latitude'' = Num 0"
    "cell (ex_line_store 0) 0 ''longitude'' = Num 0"
    using ex_cells by (simp_all add: ex_line_store_def)
  have b: "brute_force_distance (\<lambda>x. x) (ex_line_store 1) (0, 0) = 1"
    using ex_line_brute_force by (simp add: ex_line_store_def)
  from distance_is_brute_force_minimum [OF mono_id z ex_line_coordinates nm ne wf len]
  obtain s' la lo where
    "create_proximity_columns (\<lambda>x. x) ex_line_store 0 1 = Inr (s', 0)"
    "cell (ex_line_store 0) 0 ''latitude'' = Num la"
    "cell (ex_line_store 0) 0 ''longitude'' = Num lo"
    "cell (s' 0) 0 ''Distance to Nearest Port''
       = Num (brute_force_distance (\<lambda>x. x) (ex_line_store 1) (la, lo))"
    by blast
  with c b have "\<exists>s'. create_proximity_columns (\<lambda>x. x) ex_line_store 0 1 = Inr (s', 0) \<and>
      cell (s' 0) 0 ''Distance to Nearest Port'' = Num 1"
    by auto
  with mono_id z ex_line_coordinates nm ne n wf len c b show ?thesis by blast
qed

text \<open>Every flag says whether the distance is at most its threshold.\<close>

lemma flags_at_most:
  assumes "create_proximity_columns fl s a p = Inr (s', r)" and "wf_frame (s a)"
    and "i < length (rows (s a))"
  shows "\<exists>d. cell (s' r) i ''Distance to Nearest Port'' = Num d \<and>
    (cell (s' r) i ''Less than 1 km from port'' = Str ''Yes'' \<longleftrightarrow> d \<le> 1) \<and>
    (cell (s' r) i ''Less than 3 km from port'' = Str ''Yes'' \<longleftrightarrow> d \<le> 3) \<and>
    (cell (s' r) i ''Less than 5 km from port'' = Str ''Yes'' \<longleftrightarrow> d \<le> 5) \<and>
    (cell (s' r) i ''Less than 10 km from port'' = Str ''Yes'' \<longleftrightarrow> d \<le> 10) \<and>
    (cell (s' r) i ''Less than 1 km from port'' = Str ''No'' \<longleftrightarrow> \<not> d \<le> 1) \<and>
    (cell (s' r) i ''Less than 3 km from port'' = Str ''No'' \<longleftrightarrow> \<not> d \<le> 3) \<and>
    (cell (s' r) i ''Less than 5 km from port'' = Str ''No'' \<longleftrightarrow> \<not> d \<le> 5) \<and>
    (cell (s' r) i ''Less than 10 km from port'' = Str ''No'' \<longleftrightarrow> \<not> d \<le> 10)"
proof -
  from record_cells [OF assms] obtain d where
    "cell (s' r) i ''Distance to Nearest Port'' = Num d"
    "cell (s' r) i ''Less than 1 km from port'' = yes_no (d \<le> 1)"
    "cell (s' r) i ''Less than 3 km from port'' = yes_no (d \<le> 3)"
    "cell (s' r) i ''Less than 5 km from port'' = yes_no (d \<le> 5)"
    "cell (s' r) i ''Less than 10 km from port'' = yes_no (d \<le> 10)"
    by blast
  then show ?thesis by (simp add: yes_no_simps)
qed

text \<open>
  C3. The claim asks for the flag \<^verbatim>\<open>Less than X km from port\<close> to say yes exactly
  when the distance is strictly less than \<open>X\<close>. Line 56 compares with \<^verbatim>\<open><=\<close>: for
  the first of the two records of the example, at distance exactly 1 from the only port,
  the flag \<^verbatim>\<open>Less than 1 km from port\<close> of the run is \<^verbatim>\<open>"Yes"\<close>. All the
  numbers of this run are whole, so that the arithmetic is exact.
\<close>

theorem flag_at_exact_threshold:
  "create_proximity_columns (\<lambda>x. x) ex_store 0 1 = Inr (ex_store(0 := ex_annotated), 0) \<and>
   cell ((ex_store(0 := ex_annotated)) 0) 0 ''Distance to Nearest Port'' = Num 1 \<and>
   \<not> (1::real) < 1 \<and>
   cell ((ex_store(0 := ex_annotated)) 0) 0 ''Less than 1 km from port'' = Str ''Yes''"
  using ex_run by (simp add: cell_def lookup_def ex_annotated_def)

text \<open>
  C7. In a run of the nearest-port annotator that returns, the flags of every record are
  nested: a yes under a threshold comes with a yes under every larger threshold.
\<close>

theorem threshold_flags_monotone:
  assumes "create_proximity_columns fl s a p = Inr (s', r)" and "wf_frame (s a)"
    and "i < length (rows (s a))"
  shows "(cell (s' r) i ''Less than 1 km from port'' = Str ''Yes'' \<longrightarrow>
            cell (s' r) i ''Less than 3 km from port'' = Str ''Yes'' \<and>
            cell (s' r) i ''Less than 5 km from port'' = Str ''Yes'' \<and>
            cell (s' r) i ''Less than 10 km from port'' = Str ''Yes'') \<and>
         (cell (s' r) i ''Less than 3 km from port'' = Str ''Yes'' \<longrightarrow>
            cell (s' r) i ''Less than 5 km from port'' = Str ''Yes'' \<and>
            cell (s' r) i ''Less than 10 km from port'' = Str ''Yes'') \<and>
         (cell (s' r) i ''Less than 5 km from port'' = Str ''Yes'' \<longrightarrow>
            cell (s' r) i ''Less than 10 km from port'' = Str ''Yes'')"
proof -
  from record_cells [OF assms] obtain d :: real where
    "cell (s' r) i ''Less than 1 km from port'' = yes_no (d \<le> 1)"
    "cell (s' r) i ''Less than 3 km from port'' = yes_no (d \<le> 3)"
    "cell (s' r) i ''Less than 5 km from port'' = yes_no (d \<le> 5)"
    "cell (s' r) i ''Less than 10 km from port'' = yes_no (d \<le> 10)"
    by blast
  then show ?thesis by (simp add: yes_no_simps)
qed

theorem threshold_flags_monotone_witness:
  "create_proximity_columns (\<lambda>x. x) ex_store 0 1 = Inr (ex_store(0 := ex_annotated), 0) \<and>
   wf_frame (ex_store 0) \<and> (0::nat) < length (rows (ex_store 0)) \<and>
   cell ((ex_store(0 := ex_annotated)) 0) 0 ''Less than 1 km from port'' = Str ''Yes'' \<and>
   cell ((ex_store(0 := ex_annotated)) 0) 0 ''Less than 3 km from port'' = Str ''Yes'' \<and>
   cell ((ex_store(0 := ex_annotated)) 0) 0 ''Less than 5 km from port'' = Str ''Yes'' \<and>
   cell ((ex_store(0 := ex_annotated)) 0) 0 ''Less than 10 km from port'' = Str ''Yes''"
proof -
  have len: "(0::nat) < length (rows (ex_store 0))" by (simp add: ex_store_def ex_vessels_def)
  have one: "cell ((ex_store(0 := ex_annotated)) 0) 0 ''Less than 1 km from port'' = Str ''Yes''"
    by (simp add: cell_def lookup_def ex_annotated_def)
  from threshold_flags_monotone [OF ex_run ex_wf len] one
  show ?thesis using ex_run ex_wf len by blast
qed

text \<open>
  C4. In a run of the nearest-port annotator that returns, every record keeps under
  \<^verbatim>\<open>Distance to Nearest Port\<close> the distance \<open>d\<close> to a nearest row \<open>j\<close> of the port
  table. When its four flags all read \<^verbatim>\<open>"No"\<close>, its port name is the sentinel
  \<^verbatim>\<open>"No"\<close> and its port coordinates are missing values; otherwise the name and the
  coordinates are those of row \<open>j\<close> of the port table, as assigned by lines 50 to 52. The
  rounding \<open>fl\<close> of the arithmetic is monotone and keeps 0, as that of the machine does.
\<close>

theorem suppression_of_far_records:
  assumes "mono fl" and "fl 0 = 0"
    and "create_proximity_columns fl s a p = Inr (s', r)" and "wf_frame (s a)"
    and "i < length (rows (s a))"
  shows "\<exists>la lo d j x y.
    cell (s a) i ''latitude'' = Num la \<and> cell (s a) i ''longitude'' = Num lo \<and>
    j < length (rows (s p)) \<and>
    cell (s p) j ''Latitude'' = Num x \<and> cell (s p) j ''Longitude'' = Num y \<and>
    d = euclid fl (la, lo) (x, y) \<and> d = brute_force_distance fl (s p) (la, lo) \<and>
    cell (s' r) i ''Distance to Nearest Port'' = Num d \<and>
    (all_flags_no (s' r) i \<longrightarrow>
       cell (s' r) i ''Proximity Port Name'' = Str ''No'' \<and>
       cell (s' r) i ''Port Latitude'' = NaN \<and> cell (s' r) i ''Port Longitude'' = NaN) \<and>
    (\<not> all_flags_no (s' r) i \<longrightarrow>
       cell (s' r) i ''Proximity Port Name'' = cell (s p) j ''Main Port Name'' \<and>
       cell (s' r) i ''Port Latitude'' = Num x \<and> cell (s' r) i ''Port Longitude'' = Num y)"
proof -
  from record_annotation [OF assms] obtain la lo d j where
    A: "cell (s a) i ''latitude'' = Num la" "cell (s a) i ''longitude'' = Num lo"
      "j < length (rows (s p))"
      "cell (s p) j ''Latitude'' = Num (fst (port_points (s p) ! j))"
      "cell (s p) j ''Longitude'' = Num (snd (port_points (s p) ! j))"
      "euclid fl (la, lo) (port_points (s p) ! j) = d"
      "d = Min (euclid fl (la, lo) ` set (port_points (s p)))"
      "cell (s' r) i ''Distance to Nearest Port'' = Num d"
      "cell (s' r) i ''Proximity Port Name'' =
         (if all_flags_no (s' r) i then Str ''No'' else cell (s p) j ''Main Port Name'')"
      "cell (s' r) i ''Port Latitude'' =
         (if all_flags_no (s' r) i then NaN else cell (s p) j ''Latitude'')"
      "cell (s' r) i ''Port Longitude'' =
         (if all_flags_no (s' r) i then NaN else cell (s p) j ''Longitude'')"
    by blast
  have "d = euclid fl (la, lo) (fst (port_points (s p) ! j), snd (port_points (s p) ! j))"
    using A(6) by simp
  moreover have "d = brute_force_distance fl (s p) (la, lo)"
    using A(7) by (simp add: brute_force_distance_def)
  ultimately show ?thesis using A(1-5,8-11) by (intro exI conjI) auto
qed

theorem suppression_of_far_records_witness:
  "mono (\<lambda>x::real. x) \<and> (\<lambda>x::real. x) 0 = 0 \<and>
   create_proximity_columns (\<lambda>x. x) ex_store 0 1 = Inr (ex_store(0 := ex_annotated), 0) \<and>
   wf_frame (ex_store 0) \<and> (1::nat) < length (rows (ex_store 0)) \<and>
   all_flags_no ((ex_store(0 := ex_annotated)) 0) 1 \<and>
   cell ((ex_store(0 := ex_annotated)) 0) 1 ''Distance to Nearest Port'' = Num 20 \<and>
   cell ((ex_store(0 := ex_annotated)) 0) 1 ''Proximity Port Name'' = Str ''No'' \<and>
   cell ((ex_store(0 := ex_annotated)) 0) 1 ''Port Latitude'' = NaN \<and>
   cell ((ex_store(0 := ex_annotated)) 0) 1 ''Port Longitude'' = NaN"
proof -
  have len: "(1::nat) < length (rows (ex_store 0))" by (simp add: ex_store_def ex_vessels_def)
  have z: "(\<lambda>x::real. x) 0 = 0" by simp
  have far: "all_flags_no ((ex_store(0 := ex_annotated)) 0) 1"
    by (simp add: all_flags_no_def cell_def lookup_def ex_annotated_def)
  have d: "cell ((ex_store(0 := ex_annotated)) 0) 1 ''Distance to Nearest Port'' = Num 20"
    by (simp add: cell_def lookup_def ex_annotated_def)
  from suppression_of_far_records [OF mono_id z ex_run ex_wf len] far d
  show ?thesis using mono_id ex_run ex_wf len by auto
qed

section \<open>Claims on the polygon containment annotator and the pipeline\<close>

text \<open>
  C9. On a table of no record the polygon containment stage raises (no chunk is
  processed, and the concatenation of no frame is refused), whatever the chunk size.
\<close>

theorem empty_dataset_raises:
  "rows df = [] \<Longrightarrow> process_with_polygons W T df P k = Inl ValueError"
  by (rule process_with_polygons_fails) simp

theorem empty_dataset_raises_witness:
  "rows \<lparr>cols = [''latitude'', ''longitude''], rows = []\<rparr> = [] \<and>
   process_with_polygons within_polygon (\<lambda>g. g) \<lparr>cols = [''latitude'', ''longitude''], rows = []\<rparr>
     ex_areas 10000 = Inl ValueError"
  using empty_dataset_raises
    [of "\<lparr>cols = [''latitude'', ''longitude''], rows = []\<rparr>" within_polygon "\<lambda>g. g" ex_areas 10000]
  by simp

text \<open>
  C6. On a table of at least one record, the polygon containment stage with batch size 1
  returns a table exactly when it does so with the batch size equal to the number of
  records, and then the same table; its rows are the rows that the records give, record
  after record in the order of the input.
\<close>

theorem batch_size_invariance:
  assumes "rows df \<noteq> []"
  shows "(process_with_polygons W T df P 1 = Inr out \<longleftrightarrow>
            process_with_polygons W T df P (int (length (rows df))) = Inr out) \<and>
         (process_with_polygons W T df P 1 = Inr out \<longrightarrow>
            rows out = concat (map (chunk_row W (frame_to_crs T P) (cols df)) (rows df)))"
proof -
  have n: "0 < int (length (rows df))" using assms by simp
  show ?thesis
    unfolding process_with_polygons_Inr_iff using assms n by auto
qed

theorem batch_size_invariance_witness:
  "rows ex_positions \<noteq> [] \<and> length (rows ex_positions) = 5 \<and>
   process_with_polygons within_polygon (\<lambda>g. g) ex_positions ex_areas 1 = Inr ex_parked \<and>
   process_with_polygons within_polygon (\<lambda>g. g) ex_positions ex_areas
     (int (length (rows ex_positions))) = Inr ex_parked"
proof -
  have ne: "rows ex_positions \<noteq> []" and five: "length (rows ex_positions) = 5"
    by (simp_all add: ex_positions_def)
  have one: "process_with_polygons within_polygon (\<lambda>g. g) ex_positions ex_areas 1 = Inr ex_parked"
    by (rule ex_parked_run) simp
  from batch_size_invariance [OF ne, of within_polygon "\<lambda>g. g" ex_areas ex_parked] one
  show ?thesis using ne five by blast
qed

text \<open>
  C5. In a run of the polygon containment stage that returns, with the predicate
  \<^verbatim>\<open>within\<close> of line 80 and on polygons that do not overlap (after reprojection),
  the result has one row per record, and for a record with numeric coordinates:
  \<^verbatim>\<open>Parked in Port\<close> is true exactly when the point (longitude, latitude) is within
  some polygon; \<^verbatim>\<open>Port Name\<close> is the \<^verbatim>\<open>port_name\<close> of the polygon the point
  is within, and \<^verbatim>\<open>"No"\<close> when there is none. A point on the boundary of a polygon
  is not within that polygon: unless it is within another polygon, its record is not
  parked and its \<^verbatim>\<open>Port Name\<close> is \<^verbatim>\<open>"No"\<close>.
\<close>

theorem parked_iff_within_polygon:
  assumes run: "process_with_polygons within_polygon T df P k = Inr out" and wf: "wf_frame df"
    and no: "non_overlapping within_polygon (frame_to_crs T P)" and i: "i < length (rows df)"
    and x: "cell df i ''longitude'' = Num x" and y: "cell df i ''latitude'' = Num y"
  shows "length (rows out) = length (rows df) \<and>
    cell out i ''Parked in Port'' = Bool (\<exists>p\<in>set P. within_polygon (x, y) (T (polygon p))) \<and>
    (\<forall>p\<in>set P. within_polygon (x, y) (T (polygon p)) \<longrightarrow>
       cell out i ''Port Name'' = port_name p) \<and>
    ((\<forall>p\<in>set P. \<not> within_polygon (x, y) (T (polygon p))) \<longrightarrow>
       cell out i ''Port Name'' = Str ''No'') \<and>
    (\<forall>p\<in>set P. on_boundary (x, y) (T (polygon p)) \<longrightarrow>
       \<not> within_polygon (x, y) (T (polygon p)) \<and>
       ((\<forall>q\<in>set P. q \<noteq> p \<longrightarrow> \<not> within_polygon (x, y) (T (polygon q))) \<longrightarrow>
          cell out i ''Parked in Port'' = Bool False \<and> cell out i ''Port Name'' = Str ''No''))"
proof -
  let ?W = within_polygon
  let ?P = "frame_to_crs T P"
  let ?cs = "cols df"
  let ?r = "rows df ! i"
  from run have ok: "chunk_cols_ok ?cs"
    and out: "out = \<lparr>cols = chunk_cols ?cs, rows = concat (map (chunk_row ?W ?P ?cs) (rows df))\<rparr>"
    by (simp_all add: process_with_polygons_Inr_iff)
  have one: "\<forall>r\<in>set (rows df). length (chunk_row ?W ?P ?cs r) = 1"
    using length_chunk_row [OF no] by simp
  have rows_out: "rows out = map (\<lambda>r. hd (chunk_row ?W ?P ?cs r)) (rows df)"
    unfolding out using concat_singletons [OF one] by simp
  have len: "length (rows out) = length (rows df)" by (simp add: rows_out)
  have cols_out: "cols out = chunk_cols ?cs" by (simp add: out)
  have in_row: "hd (chunk_row ?W ?P ?cs ?r) \<in> set (chunk_row ?W ?P ?cs ?r)"
    by (rule hd_in_set) (rule chunk_row_nonempty)
  have row_i: "rows out ! i = hd (chunk_row ?W ?P ?cs ?r)" using i by (simp add: rows_out)
  from wf i have lr: "length ?r = length ?cs" by (simp add: wf_frame_def list_all_iff)
  have geo: "geometry_of ?cs ?r = Geom x y"
    using x y by (simp add: geometry_of_def cell_def)
  note C = chunk_row_cases [OF lr ok in_row, unfolded geo]
  have cellP: "cell out i ''Parked in Port'' =
      lookup (chunk_cols ?cs) (hd (chunk_row ?W ?P ?cs ?r)) ''Parked in Port''"
    and cellN: "cell out i ''Port Name'' =
      lookup (chunk_cols ?cs) (hd (chunk_row ?W ?P ?cs ?r)) ''Port Name''"
    by (simp_all add: cell_def cols_out row_i)
  have main: "cell out i ''Parked in Port'' = Bool (\<exists>p\<in>set P. ?W (x, y) (T (polygon p))) \<and>
    (\<forall>p\<in>set P. ?W (x, y) (T (polygon p)) \<longrightarrow> cell out i ''Port Name'' = port_name p) \<and>
    ((\<forall>p\<in>set P. \<not> ?W (x, y) (T (polygon p))) \<longrightarrow> cell out i ''Port Name'' = Str ''No'')"
  proof (cases "matches ?W ?P (Geom x y) = []")
    case True
    then have none: "\<not> (\<exists>p\<in>set P. ?W (x, y) (T (polygon p)))"
      using matches_nonempty_iff [of ?W T P x y] by simp
    from C(3) [OF True] show ?thesis using none by (simp add: cellP cellN)
  next
    case False
    then have some: "\<exists>p\<in>set P. ?W (x, y) (T (polygon p))"
      using matches_nonempty_iff [of ?W T P x y] by simp
    from C(4) [OF False] obtain j where j: "j \<in> set (matches ?W ?P (Geom x y))"
      and pk: "lookup (chunk_cols ?cs) (hd (chunk_row ?W ?P ?cs ?r)) ''Parked in Port'' = Bool True"
      and pn: "lookup (chunk_cols ?cs) (hd (chunk_row ?W ?P ?cs ?r)) ''Port Name''
        = port_name (?P ! j)"
      by blast
    from j have jl: "j < length P" by (simp add: set_matches)
    have uniq: "\<forall>p\<in>set P. ?W (x, y) (T (polygon p)) \<longrightarrow> port_name p = port_name (P ! j)"
    proof (intro ballI impI)
      fix q assume q: "q \<in> set P" and w: "?W (x, y) (T (polygon q))"
      then obtain j' where j': "j' < length P" "q = P ! j'" by (auto simp: in_set_conv_nth)
      with w have "j' \<in> set (matches ?W ?P (Geom x y))" by (simp add: set_matches)
      from at_most_one_elem [OF matches_at_most_one [OF no] this j] j'
      show "port_name q = port_name (P ! j)" by simp
    qed
    have "cell out i ''Port Name'' = port_name (P ! j)"
      using pn jl by (simp add: cellN frame_to_crs_nth)
    with uniq have "\<forall>p\<in>set P. ?W (x, y) (T (polygon p)) \<longrightarrow>
        cell out i ''Port Name'' = port_name p"
      by simp
    moreover have "cell out i ''Parked in Port'' = Bool (\<exists>p\<in>set P. ?W (x, y) (T (polygon p)))"
      using some pk by (simp add: cellP)
    ultimately show ?thesis using some by blast
  qed
  have touch: "\<forall>p\<in>set P. on_boundary (x, y) (T (polygon p)) \<longrightarrow>
       \<not> ?W (x, y) (T (polygon p)) \<and>
       ((\<forall>q\<in>set P. q \<noteq> p \<longrightarrow> \<not> ?W (x, y) (T (polygon q))) \<longrightarrow>
          cell out i ''Parked in Port'' = Bool False \<and> cell out i ''Port Name'' = Str ''No'')"
  proof (intro ballI impI conjI)
    fix p assume p: "p \<in> set P" and b: "on_boundary (x, y) (T (polygon p))"
    show nw: "\<not> ?W (x, y) (T (polygon p))" by (rule boundary_not_within [OF b])
    assume "\<forall>q\<in>set P. q \<noteq> p \<longrightarrow> \<not> ?W (x, y) (T (polygon q))"
    with nw have none: "\<forall>q\<in>set P. \<not> ?W (x, y) (T (polygon q))" by auto
    with main show "cell out i ''Parked in Port'' = Bool False" by simp
    from none main show "cell out i ''Port Name'' = Str ''No''" by simp
  qed
  from len main touch show ?thesis by blast
qed

theorem parked_iff_within_polygon_witness:
  "process_with_polygons within_polygon (\<lambda>g. g) ex_positions ex_areas 10000 = Inr ex_parked \<and>
   wf_frame ex_positions \<and> non_overlapping within_polygon (frame_to_crs (\<lambda>g. g) ex_areas) \<and>
   length (rows ex_positions) = 5 \<and> length (rows ex_parked) = 5 \<and>
   cell ex_positions 0 ''longitude'' = Num 0 \<and> cell ex_positions 0 ''latitude'' = Num 0 \<and>
   within_polygon (0, 0) (polygon (ex_areas ! 0)) \<and>
   cell ex_parked 0 ''Parked in Port'' = Bool True \<and>
   cell ex_parked 0 ''Port Name'' = Str ''Alpha'' \<and>
   cell ex_positions 1 ''longitude'' = Num 2 \<and> cell ex_positions 1 ''latitude'' = Num 0 \<and>
   on_boundary (2, 0) (polygon (ex_areas ! 0)) \<and>
   cell ex_parked 1 ''Parked in Port'' = Bool False \<and>
   cell ex_parked 1 ''Port Name'' = Str ''No''"
proof -
  have run: "process_with_polygons within_polygon (\<lambda>g. g) ex_positions ex_areas 10000
      = Inr ex_parked"
    by (rule ex_parked_run) simp
  have len: "length (rows ex_positions) = 5" by (simp add: ex_positions_def)
  have i0: "(0::nat) < length (rows ex_positions)" and i1: "(1::nat) < length (rows ex_positions)"
    by (simp_all add: len)
  have c0: "cell ex_positions 0 ''longitude'' = Num 0" "cell ex_positions 0 ''latitude'' = Num 0"
    and c1: "cell ex_positions 1 ''longitude'' = Num 2" "cell ex_positions 1 ''latitude'' = Num 0"
    by (simp_all add: cell_def lookup_def ex_positions_def)
  have P: "set ex_areas = {ex_areas ! 0, ex_areas ! 1}" "ex_areas ! 0 \<noteq> ex_areas ! 1"
    "port_name (ex_areas ! 0) = Str ''Alpha''"
    by (simp_all add: ex_areas_def)
  note A = parked_iff_within_polygon [OF run ex_positions_wf ex_non_overlapping i0 c0]
  note B = parked_iff_within_polygon [OF run ex_positions_wf ex_non_overlapping i1 c1]
  have a: "cell ex_parked 0 ''Parked in Port'' = Bool True"
    "cell ex_parked 0 ''Port Name'' = Str ''Alpha''" "length (rows ex_parked) = 5"
    using A ex_within(1) P len by auto
  have b: "cell ex_parked 1 ''Parked in Port'' = Bool False"
    "cell ex_parked 1 ''Port Name'' = Str ''No''"
    using B ex_within(2,3) P by auto
  show ?thesis
    using run ex_positions_wf ex_non_overlapping len c0 c1 ex_within(1,2) a b by simp
qed

text \<open>
  C10, as stated, fails: not all the original columns keep their values. On a position
  table that carries a column \<^verbatim>\<open>Port Name\<close> and a column \<^verbatim>\<open>geometry\<close>, both
  stages return, the result has one row for the one record, its \<^verbatim>\<open>Port Name\<close> has
  changed from \<^verbatim>\<open>"Rotterdam"\<close> to \<^verbatim>\<open>"Alpha"\<close>, and its column
  \<^verbatim>\<open>geometry\<close> is gone.
\<close>

theorem original_columns_counterexample:
  "wf_frame (ex_named_store 0) \<and>
   create_proximity_columns (\<lambda>x. x) ex_named_store 0 1
     = Inr (ex_named_store(0 := ex_named_annotated), 0) \<and>
   process_with_polygons within_polygon (\<lambda>g. g) ((ex_named_store(0 := ex_named_annotated)) 0)
     ex_areas 10000 = Inr ex_named_final \<and>
   length (rows ex_named_final) = length (rows (ex_named_store 0)) \<and>
   ''Port Name'' \<in> set (cols (ex_named_store 0)) \<and>
   cell (ex_named_store 0) 0 ''Port Name'' = Str ''Rotterdam'' \<and>
   cell ex_named_final 0 ''Port Name'' = Str ''Alpha'' \<and>
   ''geometry'' \<in> set (cols (ex_named_store 0)) \<and>
   ''geometry'' \<notin> set (cols ex_named_final)"
proof -
  have j: "process_with_polygons within_polygon (\<lambda>g. g)
      ((ex_named_store(0 := ex_named_annotated)) 0) ex_areas 10000 = Inr ex_named_final"
    using ex_named_join [of 10000] by simp
  have "wf_frame (ex_named_store 0)" by (simp add: wf_frame_def ex_named_store_def ex_named_def)
  moreover have "length (rows ex_named_final) = length (rows (ex_named_store 0))"
    "''Port Name'' \<in> set (cols (ex_named_store 0))"
    "''geometry'' \<in> set (cols (ex_named_store 0))" "''geometry'' \<notin> set (cols ex_named_final)"
    by (simp_all add: ex_named_store_def ex_named_def ex_named_final_def)
  moreover have "cell (ex_named_store 0) 0 ''Port Name'' = Str ''Rotterdam''"
    using ex_named_cells(1) by (simp add: ex_named_store_def)
  ultimately show ?thesis using ex_named_run j ex_named_cells(2) by simp
qed

text \<open>
  C10, amended. The nearest-port annotator returns the address it was given; in the store
  only the object at that address has changed, and it now carries the eight proximity
  columns, with as many rows as before and with every cell of the columns that bear none
  of the eight proximity labels as before. The polygon containment stage turns every
  record into a non-empty group of rows, in the order of the records, and each of these
  rows carries the cells of its record in every column other than \<^verbatim>\<open>geometry\<close>,
  \<^verbatim>\<open>Parked in Port\<close> and \<^verbatim>\<open>Port Name\<close>.
\<close>

theorem annotation_in_place_and_preserving:
  assumes run1: "create_proximity_columns fl s a p = Inr (s', r)" and wf: "wf_frame (s a)"
    and run2: "process_with_polygons W T (s' r) P k = Inr out"
  shows "r = a \<and> (\<forall>b. b \<noteq> a \<longrightarrow> s' b = s b) \<and>
    set (cols (s' a)) = set (cols (s a)) \<union> set proximity_columns \<and>
    length (rows (s' a)) = length (rows (s a)) \<and>
    (\<forall>c\<in>set (cols (s a)) - set proximity_columns. \<forall>i<length (rows (s a)).
        cell (s' a) i c = cell (s a) i c) \<and>
    rows out = concat (map (chunk_row W (frame_to_crs T P) (cols (s' a))) (rows (s' a))) \<and>
    (\<forall>rec\<in>set (rows (s' a)).
        chunk_row W (frame_to_crs T P) (cols (s' a)) rec \<noteq> [] \<and>
        (\<forall>row\<in>set (chunk_row W (frame_to_crs T P) (cols (s' a)) rec).
           \<forall>c\<in>set (cols (s' a)) - {''geometry'', ''Parked in Port'', ''Port Name''}.
             lookup (cols out) row c = lookup (cols (s' a)) rec c))"
proof -
  from create_proximity_columns_props [OF run1 wf] have
    r: "r = a" and other: "\<forall>b. b \<noteq> a \<longrightarrow> s' b = s b" and wf': "wf_frame (s' a)" and
    len: "length (rows (s' a)) = length (rows (s a))" and
    cs: "set (cols (s' a)) = set (cols (s a)) \<union> set proximity_columns" and
    keep: "\<forall>c\<in>set (cols (s a)). c \<notin> set proximity_columns \<longrightarrow> column (s' a) c = column (s a) c"
    by blast+
  have cells: "\<forall>c\<in>set (cols (s a)) - set proximity_columns. \<forall>i<length (rows (s a)).
        cell (s' a) i c = cell (s a) i c"
  proof (intro ballI allI impI)
    fix c i assume c: "c \<in> set (cols (s a)) - set proximity_columns" and i: "i < length (rows (s a))"
    with keep have "column (s' a) c = column (s a) c" by simp
    then have "column (s' a) c ! i = column (s a) c ! i" by simp
    then show "cell (s' a) i c = cell (s a) i c" using i len by (simp add: column_nth)
  qed
  from run2 have ok: "chunk_cols_ok (cols (s' a))"
    and out: "out = \<lparr>cols = chunk_cols (cols (s' a)),
        rows = concat (map (chunk_row W (frame_to_crs T P) (cols (s' a))) (rows (s' a)))\<rparr>"
    by (simp_all add: process_with_polygons_Inr_iff r)
  have stage2: "\<forall>rec\<in>set (rows (s' a)).
        chunk_row W (frame_to_crs T P) (cols (s' a)) rec \<noteq> [] \<and>
        (\<forall>row\<in>set (chunk_row W (frame_to_crs T P) (cols (s' a)) rec).
           \<forall>c\<in>set (cols (s' a)) - {''geometry'', ''Parked in Port'', ''Port Name''}.
             lookup (cols out) row c = lookup (cols (s' a)) rec c)"
  proof (intro ballI conjI)
    fix rec assume "rec \<in> set (rows (s' a))"
    with wf' have lr: "length rec = length (cols (s' a))" by (simp add: wf_frame_def list_all_iff)
    show "chunk_row W (frame_to_crs T P) (cols (s' a)) rec \<noteq> []" by (rule chunk_row_nonempty)
    fix row c assume row: "row \<in> set (chunk_row W (frame_to_crs T P) (cols (s' a)) rec)"
      and c: "c \<in> set (cols (s' a)) - {''geometry'', ''Parked in Port'', ''Port Name''}"
    from chunk_row_cases(2) [OF lr ok row, of c] c
    show "lookup (cols out) row c = lookup (cols (s' a)) rec c" by (simp add: out)
  qed
  show ?thesis using r other cs len cells stage2 by (simp add: out)
qed

theorem annotation_in_place_and_preserving_witness:
  "create_proximity_columns (\<lambda>x. x) ex_store 0 1 = Inr (ex_store(0 := ex_annotated), 0) \<and>
   wf_frame (ex_store 0) \<and>
   process_with_polygons within_polygon (\<lambda>g. g) ((ex_store(0 := ex_annotated)) 0) ex_areas 10000
     = Inr ex_final \<and>
   (ex_store(0 := ex_annotated)) 1 = ex_store 1 \<and>
   ''speed'' \<in> set (cols (ex_store 0)) - set proximity_columns \<and>
   cell ((ex_store(0 := ex_annotated)) 0) 1 ''speed'' = cell (ex_store 0) 1 ''speed'' \<and>
   length (rows ((ex_store(0 := ex_annotated)) 0)) = length (rows (ex_store 0))"
proof -
  have run2: "process_with_polygons within_polygon (\<lambda>g. g) ((ex_store(0 := ex_annotated)) 0)
      ex_areas 10000 = Inr ex_final"
    using ex_join [of 10000] by simp
  have sp: "''speed'' \<in> set (cols (ex_store 0)) - set proximity_columns"
    by (simp add: ex_store_def ex_vessels_def proximity_columns_def)
  have i: "(1::nat) < length (rows (ex_store 0))" by (simp add: ex_store_def ex_vessels_def)
  from annotation_in_place_and_preserving [OF ex_run ex_wf run2] sp i
  show ?thesis using ex_run ex_wf run2 by auto
qed

text \<open>
  C2, as stated, fails on the columns: the join brings the column \<^verbatim>\<open>port_name\<close> of
  the polygon table, and line 83 drops only \<^verbatim>\<open>geometry\<close> and
  \<^verbatim>\<open>index_right\<close>. On the example, the table written has a column
  \<^verbatim>\<open>port_name\<close>, which is neither a cleaned column nor one of the listed ones.
\<close>

theorem output_columns_counterexample:
  "load_and_clean_data (\<lambda>p. Inr ex_vessels) Inr Inr Inr ''data/raw_data/raw_data.parquet''
     = Inr ex_vessels \<and>
   non_overlapping within_polygon (frame_to_crs (\<lambda>g. g) ex_areas) \<and>
   main (\<lambda>x. x) (\<lambda>p. Inr ex_vessels) Inr Inr Inr (Inr ex_ports) (Inr ex_areas) within_polygon
     (\<lambda>g. g) = Inr ex_final \<and>
   set (cols ex_final) \<noteq>
     set (cols ex_vessels) \<union> set proximity_columns \<union> {''Parked in Port'', ''Port Name''}"
proof -
  have "''port_name'' \<in> set (cols ex_final)" by (simp add: ex_final_def)
  moreover have "''port_name'' \<notin>
      set (cols ex_vessels) \<union> set proximity_columns \<union> {''Parked in Port'', ''Port Name''}"
    by (simp add: ex_vessels_def proximity_columns_def)
  ultimately have "set (cols ex_final) \<noteq>
      set (cols ex_vessels) \<union> set proximity_columns \<union> {''Parked in Port'', ''Port Name''}"
    by blast
  then show ?thesis using ex_load ex_non_overlapping ex_main by simp
qed

text \<open>
  C2, amended. When the pipeline returns, on a well-formed cleaned table without a column
  \<^verbatim>\<open>geometry\<close> and on polygons that do not overlap, the table written has one row
  per cleaned record, and its columns are the cleaned columns, the eight proximity
  columns, \<^verbatim>\<open>Parked in Port\<close>, \<^verbatim>\<open>Port Name\<close> and the column
  \<^verbatim>\<open>port_name\<close> of the polygon table.
\<close>

theorem output_rows_and_columns:
  assumes clean: "load_and_clean_data ld rna rll rsp ''data/raw_data/raw_data.parquet'' = Inr cleaned"
    and polys: "lpp = Inr polygons"
    and run: "main fl ld rna rll rsp lpi lpp W T = Inr out"
    and wf: "wf_frame cleaned" and g: "''geometry'' \<notin> set (cols cleaned)"
    and no: "non_overlapping W (frame_to_crs T (keep_first [] polygons))"
  shows "length (rows out) = length (rows cleaned) \<and>
    set (cols out) = set (cols cleaned) \<union> set proximity_columns \<union>
      {''Parked in Port'', ''Port Name'', ''port_name''}"
proof -
  from run clean polys obtain port_info s' r where
    run1: "create_proximity_columns fl
        (\<lambda>a. if a = 0 then cleaned else drop_duplicates port_info) 0 1 = Inr (s', r)" and
    run2: "process_with_polygons W T (s' r) (keep_first [] polygons) 10000 = Inr out"
    by (auto simp: main_def bind_e_Inr_iff Let_def)
  let ?s = "\<lambda>a::nat. if a = 0 then cleaned else drop_duplicates port_info"
  have wf0: "wf_frame (?s 0)" using wf by simp
  from create_proximity_columns_props [OF run1 wf0] have
    r: "r = 0" and len: "length (rows (s' 0)) = length (rows cleaned)" and
    cs: "set (cols (s' 0)) = set (cols cleaned) \<union> set proximity_columns"
    by auto
  from run2 have ok: "chunk_cols_ok (cols (s' 0))"
    and out: "out = \<lparr>cols = chunk_cols (cols (s' 0)),
        rows = concat (map (chunk_row W (frame_to_crs T (keep_first [] polygons)) (cols (s' 0)))
          (rows (s' 0)))\<rparr>"
    by (simp_all add: process_with_polygons_Inr_iff r)
  have one: "\<forall>rec\<in>set (rows (s' 0)).
      length (chunk_row W (frame_to_crs T (keep_first [] polygons)) (cols (s' 0)) rec) = 1"
    using length_chunk_row [OF no] by simp
  have "rows out = map (\<lambda>rec. hd (chunk_row W (frame_to_crs T (keep_first [] polygons))
      (cols (s' 0)) rec)) (rows (s' 0))"
    unfolding out using concat_singletons [OF one] by simp
  then have rows: "length (rows out) = length (rows cleaned)" using len by simp
  have ng: "''geometry'' \<notin> set (cols (s' 0))"
    using g by (simp add: cs proximity_columns_def)
  have ni: "''index_right'' \<notin> set (cols (s' 0))" using ok by (simp add: chunk_cols_ok_def)
  have "set (cols out) = set (cols (s' 0)) \<union> {''port_name'', ''Parked in Port'', ''Port Name''}"
    using ng ni by (auto simp: out set_chunk_cols)
  with rows show ?thesis by (auto simp: cs)
qed

theorem output_rows_and_columns_witness:
  "load_and_clean_data (\<lambda>p. Inr ex_vessels) Inr Inr Inr ''data/raw_data/raw_data.parquet''
     = Inr ex_vessels \<and>
   main (\<lambda>x. x) (\<lambda>p. Inr ex_vessels) Inr Inr Inr (Inr ex_ports) (Inr ex_areas) within_polygon
     (\<lambda>g. g) = Inr ex_final \<and>
   wf_frame ex_vessels \<and> ''geometry'' \<notin> set (cols ex_vessels) \<and>
   non_overlapping within_polygon (frame_to_crs (\<lambda>g. g) (keep_first [] ex_areas)) \<and>
   length (rows ex_final) = length (rows ex_vessels) \<and>
   set (cols ex_final) = set (cols ex_vessels) \<union> set proximity_columns \<union>
      {''Parked in Port'', ''Port Name'', ''port_name''}"
proof -
  have wf: "wf_frame ex_vessels" by (simp add: wf_frame_def ex_vessels_def)
  have g: "''geometry'' \<notin> set (cols ex_vessels)" by (simp add: ex_vessels_def)
  have no: "non_overlapping within_polygon (frame_to_crs (\<lambda>g. g) (keep_first [] ex_areas))"
    using ex_non_overlapping by (simp add: ex_areas_dd)
  from output_rows_and_columns [OF ex_load refl ex_main wf g no]
  show ?thesis using ex_load ex_main wf g no by simp
qed

end
